theory Spec2Isabelle
  imports Main "HOL-Library.Word" "HOL-Library.Multiset"
begin

section \<open>Shared data model\<close>

text \<open>
  The repository holds three HTTP services: the content filter (censor service, port 8082),
  the comment store (comment service, port 8081) and the gateway (port 8080).

  A Go \<open>string\<close> is a sequence of bytes, and \<open>s[i]\<close> reads one byte; indexing outside
  \<open>0 .. len(s)-1\<close> panics. Text that is inspected byte by byte is therefore a list of
  8-bit words. Names, URLs and messages, which the code only compares or copies, are
  ordinary strings.
\<close>

type_synonym byte = "8 word"
type_synonym bytes = "byte list"

definition bytes_of :: "string \<Rightarrow> bytes" where
  "bytes_of s = map of_char s"

text \<open>\<open>s[i]\<close>: \<open>None\<close> is the run-time panic "index out of range".\<close>

definition byte_at :: "bytes \<Rightarrow> nat \<Rightarrow> byte option" where
  "byte_at s i = (if i < length s then Some (s ! i) else None)"

text \<open>
  A request as a handler sees it. \<open>Body\<close> is the outcome of
  \<open>json.NewDecoder(r.Body).Decode(&v)\<close> for the handler's own target type: \<open>None\<close> when
  \<open>Decode\<close> returns an error. \<open>URL_Query\<close> is \<open>r.URL.Query().Get\<close>, which yields the
  empty string for an absent key, as \<open>r.Header.Get\<close> does for an absent header.
  \<open>Context_request_id\<close> is the value stored under the context key \<open>request_id\<close>.
\<close>

record 'b request =
  Method :: string
  URL_Path :: string
  URL_Query :: "string \<Rightarrow> string"
  Header_X_Request_ID :: string
  Context_request_id :: "string option"
  Body :: 'b

record Comment =
  ID :: int
  NewsID :: int
  ParentID :: "int option"
  Text :: bytes

text \<open>
  A Go slice is either \<open>nil\<close> or a sequence, and \<open>encoding/json\<close> writes a \<open>nil\<close> slice
  as \<open>null\<close> and an empty one as \<open>[]\<close>. A slice that is encoded or decoded is therefore
  a \<open>Comment list option\<close>, with \<open>None\<close> for \<open>nil\<close>. \<open>news_PubTime\<close> is a \<open>time.Time\<close>,
  here a number of seconds.
\<close>

record NewsShortDetailed =
  news_ID :: int
  news_Title :: string
  news_Content :: string
  news_PubTime :: nat

record NewsFullDetailed = NewsShortDetailed +
  news_Comments :: "Comment list option"

text \<open>
  What a handler writes back: the status code and the body. \<open>PlainText\<close> is the message
  line written by \<open>http.Error\<close>, which is not a JSON document; the other constructors are
  the JSON documents the handlers encode: \<open>{"message": m}\<close>, \<open>{"id": n}\<close>, an array of
  comments or \<open>null\<close>, \<open>{"message": m, "id": n}\<close>, and a news item with its comments.
  A handler that never calls \<open>WriteHeader\<close> answers with status 200.
\<close>

datatype content =
    PlainText string
  | JSONMessage string
  | JSONId int
  | JSONComments "Comment list option"
  | JSONCreated string int
  | JSONNews NewsFullDetailed

record response =
  StatusCode :: nat
  Content :: content

definition http_Error :: "string \<Rightarrow> nat \<Rightarrow> response" where
  "http_Error msg code = \<lparr>StatusCode = code, Content = PlainText msg\<rparr>"

text \<open>
  The logging middleware, the same in all three services: the request identifier is the
  \<open>X-Request-ID\<close> header, or a fresh UUID when the header is empty, and it is stored in the
  request context for the wrapped handler. \<open>uuid\<close> is the value \<open>uuid.New().String()\<close>
  returns in this request. The two log lines are not modelled.
\<close>

definition loggingMiddleware :: "string \<Rightarrow> ('b request \<Rightarrow> 'a) \<Rightarrow> 'b request \<Rightarrow> 'a" where
  "loggingMiddleware uuid next r =
     (let requestID = Header_X_Request_ID r;
          requestID = (if requestID = [] then uuid else requestID)
      in next (r\<lparr>Context_request_id := Some requestID\<rparr>))"

definition getRequestID :: "'b request \<Rightarrow> string" where
  "getRequestID r = (case Context_request_id r of Some requestID \<Rightarrow> requestID | None \<Rightarrow> [])"

definition getRequestParam :: "'b request \<Rightarrow> string \<Rightarrow> string" where
  "getRequestParam r key = URL_Query r key"

section \<open>Content filter\<close>

record CheckRequest =
  check_Text :: bytes

text \<open>\<open>toLower\<close>: the loop over the byte indices of \<open>s\<close>, appending to \<open>result\<close>.\<close>

function toLower_loop :: "bytes \<Rightarrow> nat \<Rightarrow> bytes \<Rightarrow> bytes" where
  "toLower_loop s i result =
     (if i < length s then
        (let c = s ! i;
             c = (if c \<ge> of_char (CHR ''A'') \<and> c \<le> of_char (CHR ''Z'')
                  then c + (of_char (CHR ''a'') - of_char (CHR ''A'')) else c)
         in toLower_loop s (i + 1) (result @ [c]))
      else result)"
  by pat_completeness auto
termination
  by (relation "measure (\<lambda>(s, i, result). length s - i)") auto

declare toLower_loop.simps [simp del]

definition toLower :: "bytes \<Rightarrow> bytes" where
  "toLower s = toLower_loop s 0 []"

text \<open>
  \<open>contains\<close>: the inner loop compares \<open>substr\<close> with the bytes of \<open>s\<close> from offset \<open>i\<close>
  and stops at the first difference; the outer loop tries every offset
  \<open>i <= len(s)-len(substr)\<close>, a comparison of Go \<open>int\<close>s. The result is \<open>None\<close> if an
  index expression panics.
\<close>

function contains_inner :: "bytes \<Rightarrow> bytes \<Rightarrow> nat \<Rightarrow> nat \<Rightarrow> bool option" where
  "contains_inner s substr i j =
     (if j < length substr then
        (case byte_at s (i + j) of
           None \<Rightarrow> None
         | Some a \<Rightarrow>
            (case byte_at substr j of
               None \<Rightarrow> None
             | Some b \<Rightarrow> if a \<noteq> b then Some False else contains_inner s substr i (j + 1)))
      else Some True)"
  by pat_completeness auto
termination
  by (relation "measure (\<lambda>(s, substr, i, j). length substr - j)") auto

declare contains_inner.simps [simp del]

function contains_outer :: "bytes \<Rightarrow> bytes \<Rightarrow> nat \<Rightarrow> bool option" where
  "contains_outer s substr i =
     (if int i \<le> int (length s) - int (length substr) then
        (case contains_inner s substr i 0 of
           None \<Rightarrow> None
         | Some match \<Rightarrow> if match then Some True else contains_outer s substr (i + 1))
      else Some False)"
  by pat_completeness auto
termination
  by (relation "measure (\<lambda>(s, substr, i). nat (int (length s) - int (length substr) + 1 - int i))") auto

declare contains_outer.simps [simp del]

definition contains :: "bytes \<Rightarrow> bytes \<Rightarrow> bool option" where
  "contains s substr =
     (if length substr = 0 then Some True
      else if length substr > length s then Some False
      else contains_outer s substr 0)"

definition containsIgnoreCase :: "bytes \<Rightarrow> bytes \<Rightarrow> bool option" where
  "containsIgnoreCase s substr = contains (toLower s) (toLower substr)"

text \<open>
  The three denylisted words. The second is the Cyrillic word of the source literal, in
  the UTF-8 encoding every Go source file has: U+0439 U+0446 U+0443 U+043A U+0435 U+043D.
\<close>

definition prohibitedWords :: "bytes list" where
  "prohibitedWords =
     [bytes_of ''qwerty'',
      [0xD0, 0xB9, 0xD1, 0x86, 0xD1, 0x83, 0xD0, 0xBA, 0xD0, 0xB5, 0xD0, 0xBD],
      bytes_of ''zxvbnm'']"

fun containsProhibitedWords_loop :: "bytes list \<Rightarrow> bytes \<Rightarrow> bool option" where
  "containsProhibitedWords_loop [] text = Some False"
| "containsProhibitedWords_loop (word # rest) text =
     (case containsIgnoreCase text word of
        None \<Rightarrow> None
      | Some found \<Rightarrow> if found then Some True else containsProhibitedWords_loop rest text)"

definition containsProhibitedWords :: "bytes \<Rightarrow> bool option" where
  "containsProhibitedWords text = containsProhibitedWords_loop prohibitedWords text"

text \<open>
  \<open>checkHandler\<close>. \<open>None\<close> is a panic inside the handler, after which the server drops the
  connection without a response.
\<close>

definition checkHandler :: "CheckRequest option request \<Rightarrow> response option" where
  "checkHandler r =
     (if Method r \<noteq> ''POST'' then Some (http_Error ''Method not allowed'' 405)
      else case Body r of
        None \<Rightarrow> Some (http_Error ''Invalid JSON'' 400)
      | Some req \<Rightarrow>
         (case containsProhibitedWords (check_Text req) of
            None \<Rightarrow> None
          | Some prohibited \<Rightarrow>
              if prohibited then Some (http_Error ''Text contains prohibited content'' 400)
              else Some \<lparr>StatusCode = 200, Content = JSONMessage ''Text passed censorship check''\<rparr>))"

section \<open>Comment store\<close>

record CreateCommentRequest =
  req_NewsID :: int
  req_ParentID :: "int option"
  req_Text :: bytes

text \<open>
  The two package-level variables \<open>comments\<close> and \<open>nextID\<close>. The slice \<open>comments\<close> is
  only appended to and ranged over, so a list stands for it (the \<open>nil\<close> slice is the empty
  list). \<open>nextID\<close> is a Go \<open>int\<close>; it counts the elements of \<open>comments\<close> plus one, and a
  slice cannot hold as many elements as the largest \<open>int\<close>, so the counter never wraps.
\<close>

record store =
  comments :: "Comment list"
  nextID :: int

definition initial_store :: store where
  "initial_store = \<lparr>comments = [], nextID = 1\<rparr>"

definition createCommentHandler :: "CreateCommentRequest option request \<Rightarrow> store \<Rightarrow> response \<times> store" where
  "createCommentHandler r s =
     (case Body r of
        None \<Rightarrow> (http_Error ''Invalid JSON'' 400, s)
      | Some req \<Rightarrow>
         (let comment = \<lparr>ID = nextID s, NewsID = req_NewsID req,
                         ParentID = req_ParentID req, Text = req_Text req\<rparr>;
              s = s\<lparr>comments := comments s @ [comment]\<rparr>;
              s = s\<lparr>nextID := nextID s + 1\<rparr>
          in (\<lparr>StatusCode = 200, Content = JSONId (ID comment)\<rparr>, s)))"

text \<open>\<open>append\<close> on a slice that may be \<open>nil\<close>.\<close>

fun append_slice :: "'a list option \<Rightarrow> 'a \<Rightarrow> 'a list option" where
  "append_slice None x = Some [x]"
| "append_slice (Some xs) x = Some (xs @ [x])"

text \<open>The loop of \<open>getCommentsHandler\<close>; \<open>filteredComments\<close> starts as the \<open>nil\<close> slice.\<close>

fun filter_loop :: "Comment list \<Rightarrow> int \<Rightarrow> Comment list option \<Rightarrow> Comment list option" where
  "filter_loop [] newsID filteredComments = filteredComments"
| "filter_loop (comment # rest) newsID filteredComments =
     (if NewsID comment = newsID
      then filter_loop rest newsID (append_slice filteredComments comment)
      else filter_loop rest newsID filteredComments)"

text \<open>
  \<open>Atoi\<close> is \<open>strconv.Atoi\<close> of the standard library: \<open>None\<close> when it returns an error.
\<close>

definition getCommentsHandler :: "(string \<Rightarrow> int option) \<Rightarrow> 'b request \<Rightarrow> store \<Rightarrow> response \<times> store" where
  "getCommentsHandler Atoi r s =
     (let newsIDStr = getRequestParam r ''news_id'' in
      if newsIDStr = [] then (http_Error ''news_id parameter is required'' 400, s)
      else case Atoi newsIDStr of
        None \<Rightarrow> (http_Error ''Invalid news_id parameter'' 400, s)
      | Some newsID \<Rightarrow>
         (let filteredComments = filter_loop (comments s) newsID None
          in (\<lparr>StatusCode = 200, Content = JSONComments filteredComments\<rparr>, s)))"

definition commentsHandler :: "(string \<Rightarrow> int option) \<Rightarrow> CreateCommentRequest option request \<Rightarrow> store \<Rightarrow> response \<times> store" where
  "commentsHandler Atoi r s =
     (if Method r = ''GET'' then getCommentsHandler Atoi r s
      else if Method r = ''POST'' then createCommentHandler r s
      else (http_Error ''Method not allowed'' 405, s))"

text \<open>
  The service handles its requests in turn: \<open>process_requests\<close> feeds a list of requests to
  \<open>commentsHandler\<close>, each on the state the previous one left, and collects the responses.
\<close>

fun process_requests ::
  "(string \<Rightarrow> int option) \<Rightarrow> CreateCommentRequest option request list \<Rightarrow> store \<Rightarrow> response list \<times> store" where
  "process_requests Atoi [] s = ([], s)"
| "process_requests Atoi (r # rs) s =
     (case commentsHandler Atoi r s of
        (resp, s) \<Rightarrow> (case process_requests Atoi rs s of (resps, s) \<Rightarrow> (resp # resps, s)))"

subsection \<open>Overlapping create requests\<close>

text \<open>
  The HTTP server runs every request in a goroutine of its own, and \<open>createCommentHandler\<close>
  takes no lock. Between two statements of one handler, statements of another may run.
  A handler in progress is at one of the points below; \<open>step_create\<close> runs its next
  statement, taken as one indivisible step (the coarsest interleaving the program has):
  building \<open>comment\<close> reads \<open>nextID\<close>, the \<open>append\<close> updates \<open>comments\<close>, \<open>nextID++\<close>
  updates the counter, and the response encodes \<open>comment.ID\<close>.
\<close>

datatype create_thread =
    Decoding "CreateCommentRequest option"
  | Built Comment
  | Appended Comment
  | Incremented Comment
  | Responded response

fun step_create :: "create_thread \<Rightarrow> store \<Rightarrow> create_thread \<times> store" where
  "step_create (Decoding None) s = (Responded (http_Error ''Invalid JSON'' 400), s)"
| "step_create (Decoding (Some req)) s =
     (Built \<lparr>ID = nextID s, NewsID = req_NewsID req,
             ParentID = req_ParentID req, Text = req_Text req\<rparr>, s)"
| "step_create (Built comment) s = (Appended comment, s\<lparr>comments := comments s @ [comment]\<rparr>)"
| "step_create (Appended comment) s = (Incremented comment, s\<lparr>nextID := nextID s + 1\<rparr>)"
| "step_create (Incremented comment) s =
     (Responded \<lparr>StatusCode = 200, Content = JSONId (ID comment)\<rparr>, s)"
| "step_create (Responded resp) s = (Responded resp, s)"

text \<open>
  A schedule names, step by step, the handler that runs next. A step of a handler that
  does not exist is skipped.
\<close>

fun run_schedule :: "nat list \<Rightarrow> create_thread list \<times> store \<Rightarrow> create_thread list \<times> store" where
  "run_schedule [] c = c"
| "run_schedule (i # sched) (ts, s) =
     (if i < length ts
      then (case step_create (ts ! i) s of (t, s') \<Rightarrow> run_schedule sched (ts[i := t], s'))
      else run_schedule sched (ts, s))"

fun returned_id :: "create_thread \<Rightarrow> int option" where
  "returned_id (Responded resp) = (case Content resp of JSONId n \<Rightarrow> Some n | _ \<Rightarrow> None)"
| "returned_id _ = None"

text \<open>The schedule that serves the handlers one after another, in the order \<open>order\<close>.\<close>

definition serial :: "nat list \<Rightarrow> nat list" where
  "serial order = concat (map (replicate 4) order)"

section \<open>Gateway\<close>

text \<open>
  A request the gateway sends with its HTTP client: method, URL, the two headers the code
  sets (the empty string for a header that is not set) and the marshalled payload.
\<close>

datatype payload =
    NoPayload
  | CheckPayload bytes
  | CreatePayload int "int option" bytes

record client_request =
  c_Method :: string
  c_URL :: string
  c_X_Request_ID :: string
  c_Content_Type :: string
  c_Body :: payload

text \<open>
  The world outside the gateway: \<open>client.Do\<close> hands a request to the network, which
  answers with a response or with an error (\<open>None\<close>: refused connection, timeout, broken
  response) and may change the state of the services behind it. The environment of a
  handler is that state together with the requests sent so far.
\<close>

type_synonym 'w network = "'w \<Rightarrow> client_request \<Rightarrow> response option \<times> 'w"

record 'w env =
  world :: 'w
  calls :: "client_request list"

definition client_Do :: "'w network \<Rightarrow> client_request \<Rightarrow> 'w env \<Rightarrow> response option \<times> 'w env" where
  "client_Do net req e =
     (case net (world e) req of (resp, w) \<Rightarrow> (resp, \<lparr>world = w, calls = calls e @ [req]\<rparr>))"

datatype error =
    TransportError
  | CensorRejected
  | CensorUnexpectedStatus nat
  | CommentServiceStatus nat
  | DecodeError

text \<open>
  \<open>json.NewDecoder(resp.Body).Decode(&comments)\<close> into a \<open>nil\<close> slice: \<open>null\<close> leaves the
  slice \<open>nil\<close>, an array fills it, anything else is an error.
\<close>

fun decode_Comments :: "content \<Rightarrow> Comment list option option" where
  "decode_Comments (JSONComments cs) = Some cs"
| "decode_Comments _ = None"

text \<open>
  In the three functions that call a service, \<open>json.Marshal\<close> and \<open>http.NewRequest\<close>
  cannot fail (the methods and URLs are constants of the code, up to a decimal number, and
  the payloads are maps of strings and integers), so their error branches are left out.
  \<open>Sprint_d\<close> is the decimal rendering of \<open>fmt.Sprintf("%d", n)\<close>.
\<close>

definition comments_request :: "(int \<Rightarrow> string) \<Rightarrow> int \<Rightarrow> string \<Rightarrow> client_request" where
  "comments_request Sprint_d newsID requestID =
     \<lparr>c_Method = ''GET'', c_URL = ''http://localhost:8081/comments?news_id='' @ Sprint_d newsID,
      c_X_Request_ID = requestID, c_Content_Type = [], c_Body = NoPayload\<rparr>"

definition getCommentsForNews ::
  "(int \<Rightarrow> string) \<Rightarrow> 'w network \<Rightarrow> int \<Rightarrow> string \<Rightarrow> 'w env \<Rightarrow> (error + Comment list option) \<times> 'w env" where
  "getCommentsForNews Sprint_d net newsID requestID e =
     (case client_Do net (comments_request Sprint_d newsID requestID) e of
        (None, e) \<Rightarrow> (Inl TransportError, e)
      | (Some resp, e) \<Rightarrow>
          if StatusCode resp \<noteq> 200 then (Inl (CommentServiceStatus (StatusCode resp)), e)
          else (case decode_Comments (Content resp) of
                  None \<Rightarrow> (Inl DecodeError, e)
                | Some fetched \<Rightarrow> (Inr fetched, e)))"

definition TrimPrefix :: "string \<Rightarrow> string \<Rightarrow> string" where
  "TrimPrefix s prefix = (if take (length prefix) s = prefix then drop (length prefix) s else s)"

definition newsDetailHandler ::
  "(string \<Rightarrow> int option) \<Rightarrow> (int \<Rightarrow> string) \<Rightarrow> nat \<Rightarrow> 'w network \<Rightarrow> 'b request \<Rightarrow> 'w env \<Rightarrow> response \<times> 'w env" where
  "newsDetailHandler Atoi Sprint_d now net r e =
     (if Method r \<noteq> ''GET'' then (http_Error ''Method not allowed'' 405, e)
      else let path = TrimPrefix (URL_Path r) ''/news/'' in
        if path = [] then (http_Error ''News ID is required'' 400, e)
        else case Atoi path of
          None \<Rightarrow> (http_Error ''Invalid news ID'' 400, e)
        | Some newsID \<Rightarrow>
           (case getCommentsForNews Sprint_d net newsID (getRequestID r) e of
              (result, e) \<Rightarrow>
                (let fetched = (case result of Inl err \<Rightarrow> Some [] | Inr fetched \<Rightarrow> fetched)
                 in (\<lparr>StatusCode = 200,
                      Content = JSONNews
                        \<lparr>news_ID = newsID, news_Title = ''News '' @ Sprint_d newsID,
                         news_Content = ''Content of news '' @ Sprint_d newsID,
                         news_PubTime = now, news_Comments = fetched\<rparr>\<rparr>, e))))"

definition censor_request :: "bytes \<Rightarrow> string \<Rightarrow> client_request" where
  "censor_request text requestID =
     \<lparr>c_Method = ''POST'', c_URL = ''http://localhost:8082/check'',
      c_X_Request_ID = requestID, c_Content_Type = ''application/json'',
      c_Body = CheckPayload text\<rparr>"

definition validateCommentWithCensorService ::
  "'w network \<Rightarrow> bytes \<Rightarrow> string \<Rightarrow> 'w env \<Rightarrow> error option \<times> 'w env" where
  "validateCommentWithCensorService net text requestID e =
     (case client_Do net (censor_request text requestID) e of
        (None, e) \<Rightarrow> (Some TransportError, e)
      | (Some resp, e) \<Rightarrow>
          if StatusCode resp = 400 then (Some CensorRejected, e)
          else if StatusCode resp \<noteq> 200 then (Some (CensorUnexpectedStatus (StatusCode resp)), e)
          else (None, e))"

definition save_request :: "Comment \<Rightarrow> string \<Rightarrow> client_request" where
  "save_request comment requestID =
     \<lparr>c_Method = ''POST'', c_URL = ''http://localhost:8081/comments'',
      c_X_Request_ID = requestID, c_Content_Type = ''application/json'',
      c_Body = CreatePayload (NewsID comment) (ParentID comment) (Text comment)\<rparr>"

definition saveCommentToService ::
  "'w network \<Rightarrow> Comment \<Rightarrow> string \<Rightarrow> 'w env \<Rightarrow> error option \<times> 'w env" where
  "saveCommentToService net comment requestID e =
     (case client_Do net (save_request comment requestID) e of
        (None, e) \<Rightarrow> (Some TransportError, e)
      | (Some resp, e) \<Rightarrow>
          if StatusCode resp \<noteq> 200 \<and> StatusCode resp \<noteq> 201
          then (Some (CommentServiceStatus (StatusCode resp)), e)
          else (None, e))"

definition commentHandler :: "'w network \<Rightarrow> Comment option request \<Rightarrow> 'w env \<Rightarrow> response \<times> 'w env" where
  "commentHandler net r e =
     (if Method r \<noteq> ''POST'' then (http_Error ''Method not allowed'' 405, e)
      else case Body r of
        None \<Rightarrow> (http_Error ''Invalid JSON'' 400, e)
      | Some comment \<Rightarrow>
         (let requestID = getRequestID r in
          case validateCommentWithCensorService net (Text comment) requestID e of
            (Some err, e) \<Rightarrow> (http_Error ''Comment contains prohibited content'' 400, e)
          | (None, e) \<Rightarrow>
             (case saveCommentToService net comment requestID e of
                (Some err, e) \<Rightarrow> (http_Error ''Failed to save comment'' 500, e)
              | (None, e) \<Rightarrow>
                  (\<lparr>StatusCode = 200, Content = JSONCreated ''Comment created successfully'' 1\<rparr>, e))))"

text \<open>The handlers as \<open>main\<close> registers them for \<open>/comment\<close> and \<open>/news/\<close>.\<close>

definition serve_comment :: "string \<Rightarrow> 'w network \<Rightarrow> Comment option request \<Rightarrow> 'w env \<Rightarrow> response \<times> 'w env" where
  "serve_comment uuid net r e = loggingMiddleware uuid (commentHandler net) r e"

definition serve_news_detail ::
  "string \<Rightarrow> (string \<Rightarrow> int option) \<Rightarrow> (int \<Rightarrow> string) \<Rightarrow> nat \<Rightarrow> 'w network \<Rightarrow> 'b request \<Rightarrow> 'w env \<Rightarrow> response \<times> 'w env" where
  "serve_news_detail uuid Atoi Sprint_d now net r e =
     loggingMiddleware uuid (newsDetailHandler Atoi Sprint_d now net) r e"

subsection \<open>The three services on one machine\<close>

text \<open>
  A network without faults in which the content filter and the comment store of this
  repository answer the requests of the gateway: a request to port 8082 goes to the
  filter, a request to \<open>/comments\<close> on port 8081 to the store, whose state is the state of
  the world; the payload the gateway marshals is the payload the service decodes. A
  handler that panics drops the connection, which the client sees as an error.
\<close>

definition loopback :: "(string \<Rightarrow> int option) \<Rightarrow> string \<Rightarrow> store network" where
  "loopback Atoi uuid s q =
     (if c_URL q = ''http://localhost:8082/check'' then
        (loggingMiddleware uuid checkHandler
           \<lparr>Method = c_Method q, URL_Path = ''/check'', URL_Query = (\<lambda>key. []),
            Header_X_Request_ID = c_X_Request_ID q, Context_request_id = None,
            Body = (case c_Body q of CheckPayload text \<Rightarrow> Some \<lparr>check_Text = text\<rparr> | _ \<Rightarrow> None)\<rparr>,
         s)
      else if c_URL q = ''http://localhost:8081/comments''
              \<or> take (length ''http://localhost:8081/comments?news_id='') (c_URL q)
                    = ''http://localhost:8081/comments?news_id='' then
        (case loggingMiddleware uuid (commentsHandler Atoi)
                \<lparr>Method = c_Method q, URL_Path = ''/comments'',
                 URL_Query = (\<lambda>key. if key = ''news_id''
                                     then drop (length ''http://localhost:8081/comments?news_id='') (c_URL q)
                                     else []),
                 Header_X_Request_ID = c_X_Request_ID q, Context_request_id = None,
                 Body = (case c_Body q of
                           CreatePayload newsID parentID text \<Rightarrow>
                             Some \<lparr>req_NewsID = newsID, req_ParentID = parentID, req_Text = text\<rparr>
                         | _ \<Rightarrow> None)\<rparr> s of
           (resp, s) \<Rightarrow> (Some resp, s))
      else (None, s))"

section \<open>Notions used in the statements\<close>

text \<open>
  The lowercase counterpart of a byte, by the table of the 26 ASCII letters: a byte that
  is an upper-case ASCII letter goes to the lower-case letter, every other byte to itself.
\<close>

definition ascii_letters :: "(byte \<times> byte) list" where
  "ascii_letters = zip (bytes_of ''ABCDEFGHIJKLMNOPQRSTUVWXYZ'') (bytes_of ''abcdefghijklmnopqrstuvwxyz'')"

definition spec_ascii_lower :: "byte \<Rightarrow> byte" where
  "spec_ascii_lower c = (case map_of ascii_letters c of Some l \<Rightarrow> l | None \<Rightarrow> c)"

text \<open>\<open>substr\<close> occurs in \<open>s\<close> at offset \<open>i\<close>.\<close>

definition matches_at :: "bytes \<Rightarrow> bytes \<Rightarrow> nat \<Rightarrow> bool" where
  "matches_at s substr i = (\<forall>k. k < length substr \<longrightarrow> s ! (i + k) = substr ! k)"

text \<open>
  Letter case beyond ASCII, as far as the denylist needs it: the UTF-8 encoding of a code
  point below U+0800, and the lower-case mapping of Unicode on the Basic Latin capitals and
  on the Cyrillic capitals U+0410 to U+042F, which lie 32 code points below their
  lower-case letters.
\<close>

definition spec_utf8 :: "nat \<Rightarrow> bytes" where
  "spec_utf8 cp = (if cp < 0x80 then [of_nat cp]
                   else [0xC0 + of_nat (cp div 0x40), 0x80 + of_nat (cp mod 0x40)])"

definition spec_unicode_lower :: "nat \<Rightarrow> nat" where
  "spec_unicode_lower cp =
     (if (0x41 \<le> cp \<and> cp \<le> 0x5A) \<or> (0x410 \<le> cp \<and> cp \<le> 0x42F) then cp + 0x20 else cp)"

text \<open>
  The identifier a response carries in \<open>{"id": n}\<close>; the payloads of the requests of a run
  that create a comment (method POST, payload decoded), in order; the comments these
  payloads become when they are numbered consecutively from \<open>n\<close>.
\<close>

definition response_id :: "response \<Rightarrow> int option" where
  "response_id resp = (case Content resp of JSONId n \<Rightarrow> Some n | _ \<Rightarrow> None)"

definition payloads :: "CreateCommentRequest option request list \<Rightarrow> CreateCommentRequest list" where
  "payloads rs = List.map_filter (\<lambda>r. if Method r = ''POST'' then Body r else None) rs"

fun numbered :: "int \<Rightarrow> CreateCommentRequest list \<Rightarrow> Comment list" where
  "numbered n [] = []"
| "numbered n (req # reqs) =
     \<lparr>ID = n, NewsID = req_NewsID req, ParentID = req_ParentID req, Text = req_Text req\<rparr>
       # numbered (n + 1) reqs"

text \<open>The elements of a slice: none for the \<open>nil\<close> slice.\<close>

definition slice_elems :: "'a list option \<Rightarrow> 'a list" where
  "slice_elems sl = (case sl of None \<Rightarrow> [] | Some xs \<Rightarrow> xs)"

text \<open>
  How the gateway reads the answer of a service: the check passed, the comment was saved,
  the list of comments arrived.
\<close>

definition check_passed :: "response option \<Rightarrow> bool" where
  "check_passed answer = (case answer of None \<Rightarrow> False | Some resp \<Rightarrow> StatusCode resp = 200)"

definition save_succeeded :: "response option \<Rightarrow> bool" where
  "save_succeeded answer =
     (case answer of None \<Rightarrow> False | Some resp \<Rightarrow> StatusCode resp = 200 \<or> StatusCode resp = 201)"

definition list_succeeded :: "response option \<Rightarrow> bool" where
  "list_succeeded answer =
     (case answer of None \<Rightarrow> False
      | Some resp \<Rightarrow> StatusCode resp = 200 \<and> decode_Comments (Content resp) \<noteq> None)"

text \<open>A request of the gateway with its \<open>X-Request-ID\<close> header blanked.\<close>

definition without_request_id :: "client_request \<Rightarrow> client_request" where
  "without_request_id q = q\<lparr>c_X_Request_ID := []\<rparr>"

section \<open>Properties of the content filter\<close>

lemma upper_range:
  "(of_char (CHR ''A'') \<le> c \<and> c \<le> of_char (CHR ''Z'')) = (c \<in> set (bytes_of ''ABCDEFGHIJKLMNOPQRSTUVWXYZ''))"
  unfolding bytes_of_def list.set list.map insert_iff empty_iff word_le_nat_alt word_unat_eq_iff [of c]
  by simp arith

lemma lower_letters:
  "bytes_of ''abcdefghijklmnopqrstuvwxyz'' =
     map (\<lambda>c. c + (of_char (CHR ''a'') - of_char (CHR ''A''))) (bytes_of ''ABCDEFGHIJKLMNOPQRSTUVWXYZ'')"
  by (simp add: bytes_of_def)

lemma map_of_ascii_letters:
  "map_of ascii_letters c =
     (if of_char (CHR ''A'') \<le> c \<and> c \<le> of_char (CHR ''Z'')
      then Some (c + (of_char (CHR ''a'') - of_char (CHR ''A''))) else None)"
  unfolding ascii_letters_def lower_letters map_of_zip_map upper_range by simp

lemma lower_byte_table:
  "(if c \<ge> of_char (CHR ''A'') \<and> c \<le> of_char (CHR ''Z'')
    then c + (of_char (CHR ''a'') - of_char (CHR ''A'')) else c) = spec_ascii_lower c"
  unfolding spec_ascii_lower_def map_of_ascii_letters by simp

lemma toLower_loop_map:
  "i \<le> length s \<Longrightarrow> toLower_loop s i result = result @ map spec_ascii_lower (drop i s)"
proof (induction s i result rule: toLower_loop.induct)
  case (1 s i result)
  show ?case
  proof (cases "i < length s")
    case True
    then have d: "drop i s = s ! i # drop (Suc i) s" by (simp add: Cons_nth_drop_Suc)
    from True have "toLower_loop s i result = toLower_loop s (i + 1) (result @ [spec_ascii_lower (s ! i)])"
      by (subst toLower_loop.simps) (simp only: if_True Let_def lower_byte_table)
    also have "\<dots> = (result @ [spec_ascii_lower (s ! i)]) @ map spec_ascii_lower (drop (i + 1) s)"
      using "1.IH" [OF True refl refl] True unfolding lower_byte_table by simp
    finally show ?thesis by (simp add: d)
  next
    case False
    with "1.prems" show ?thesis by (subst toLower_loop.simps) simp
  qed
qed

lemma toLower_map: "toLower s = map spec_ascii_lower s"
  by (simp add: toLower_def toLower_loop_map)

lemma contains_inner_eq:
  "i + length substr \<le> length s \<Longrightarrow>
   contains_inner s substr i j = Some (\<forall>k. j \<le> k \<and> k < length substr \<longrightarrow> s ! (i + k) = substr ! k)"
proof (induction s substr i j rule: contains_inner.induct)
  case (1 s substr i j)
  show ?case
  proof (cases "j < length substr")
    case True
    with "1.prems" have a: "byte_at s (i + j) = Some (s ! (i + j))" "byte_at substr j = Some (substr ! j)"
      by (simp_all add: byte_at_def)
    show ?thesis
    proof (cases "s ! (i + j) = substr ! j")
      case eq: True
      have "contains_inner s substr i j = contains_inner s substr i (j + 1)"
        using True a eq by (subst contains_inner.simps) simp
      also have "\<dots> = Some (\<forall>k. j + 1 \<le> k \<and> k < length substr \<longrightarrow> s ! (i + k) = substr ! k)"
        using "1.IH" [OF True a(1) a(2)] eq "1.prems" by simp
      also have "(\<forall>k. j + 1 \<le> k \<and> k < length substr \<longrightarrow> s ! (i + k) = substr ! k)
                 = (\<forall>k. j \<le> k \<and> k < length substr \<longrightarrow> s ! (i + k) = substr ! k)"
        using eq by (metis Suc_eq_plus1 Suc_leI le_neq_implies_less Suc_leD)
      finally show ?thesis .
    next
      case neq: False
      have "contains_inner s substr i j = Some False"
        using True a neq by (subst contains_inner.simps) simp
      moreover have "\<not> (\<forall>k. j \<le> k \<and> k < length substr \<longrightarrow> s ! (i + k) = substr ! k)"
        using True neq by blast
      ultimately show ?thesis by simp
    qed
  next
    case False
    then show ?thesis by (subst contains_inner.simps) auto
  qed
qed

lemma contains_outer_eq:
  "length substr \<le> length s \<Longrightarrow>
   contains_outer s substr i = Some (\<exists>i'. i \<le> i' \<and> i' + length substr \<le> length s \<and> matches_at s substr i')"
proof (induction s substr i rule: contains_outer.induct)
  case (1 s substr i)
  show ?case
  proof (cases "int i \<le> int (length s) - int (length substr)")
    case True
    then have b: "i + length substr \<le> length s" by simp
    have inner: "contains_inner s substr i 0 = Some (matches_at s substr i)"
      using contains_inner_eq [OF b, of 0] by (simp add: matches_at_def)
    show ?thesis
    proof (cases "matches_at s substr i")
      case m: True
      have "contains_outer s substr i = Some True"
        using True inner m by (subst contains_outer.simps) simp
      moreover have "\<exists>i'. i \<le> i' \<and> i' + length substr \<le> length s \<and> matches_at s substr i'"
        using b m by blast
      ultimately show ?thesis by simp
    next
      case m: False
      have "contains_outer s substr i = contains_outer s substr (i + 1)"
        using True inner m by (subst contains_outer.simps) simp
      also have "\<dots> = Some (\<exists>i'. i + 1 \<le> i' \<and> i' + length substr \<le> length s \<and> matches_at s substr i')"
        using "1.IH" [OF True inner] m "1.prems" by simp
      also have "(\<exists>i'. i + 1 \<le> i' \<and> i' + length substr \<le> length s \<and> matches_at s substr i')
               = (\<exists>i'. i \<le> i' \<and> i' + length substr \<le> length s \<and> matches_at s substr i')"
        using m by (metis Suc_eq_plus1 Suc_leI le_neq_implies_less Suc_leD)
      finally show ?thesis .
    qed
  next
    case False
    then have "\<not> (\<exists>i'. i \<le> i' \<and> i' + length substr \<le> length s \<and> matches_at s substr i')"
      by auto
    moreover have "contains_outer s substr i = Some False"
      using False by (subst contains_outer.simps) simp
    ultimately show ?thesis by simp
  qed
qed

lemma matches_at_iff:
  "(\<exists>i. i + length substr \<le> length s \<and> matches_at s substr i) = (\<exists>pre post. s = pre @ substr @ post)"
proof
  assume "\<exists>i. i + length substr \<le> length s \<and> matches_at s substr i"
  then obtain i where i: "i + length substr \<le> length s" "matches_at s substr i" by blast
  have "take (length substr) (drop i s) = substr"
    using i by (intro nth_equalityI) (simp_all add: matches_at_def)
  then have "s = take i s @ substr @ drop (length substr) (drop i s)"
    by (metis append_take_drop_id)
  then show "\<exists>pre post. s = pre @ substr @ post" by blast
next
  assume "\<exists>pre post. s = pre @ substr @ post"
  then obtain pre post where s: "s = pre @ substr @ post" by blast
  have "length pre + length substr \<le> length s" by (simp add: s)
  moreover have "matches_at s substr (length pre)"
    by (simp add: matches_at_def s nth_append)
  ultimately show "\<exists>i. i + length substr \<le> length s \<and> matches_at s substr i" by blast
qed

lemma contains_eq: "contains s substr = Some (\<exists>pre post. s = pre @ substr @ post)"
proof (cases "length substr = 0")
  case True
  then have "s = [] @ substr @ s" by simp
  then have "\<exists>pre post. s = pre @ substr @ post" by blast
  with True show ?thesis by (simp add: contains_def)
next
  case nz: False
  show ?thesis
  proof (cases "length substr > length s")
    case True
    then have "\<not> (\<exists>pre post. s = pre @ substr @ post)" by auto
    with nz True show ?thesis by (simp add: contains_def)
  next
    case False
    then have le: "length substr \<le> length s" by simp
    have "contains s substr = contains_outer s substr 0"
      using nz False by (simp add: contains_def)
    also have "\<dots> = Some (\<exists>i'. i' + length substr \<le> length s \<and> matches_at s substr i')"
      using contains_outer_eq [OF le, of 0] by simp
    finally show ?thesis by (simp only: matches_at_iff)
  qed
qed

lemma containsIgnoreCase_eq:
  "containsIgnoreCase s substr =
     Some (\<exists>pre post. map spec_ascii_lower s = pre @ map spec_ascii_lower substr @ post)"
  by (simp add: containsIgnoreCase_def toLower_map contains_eq)

lemma containsProhibitedWords_loop_eq:
  "containsProhibitedWords_loop ws text =
     Some (\<exists>word \<in> set ws. \<exists>pre post. map spec_ascii_lower text = pre @ map spec_ascii_lower word @ post)"
  by (induction ws) (auto simp add: containsIgnoreCase_eq)

lemma spec_ascii_lower_fix:
  "c \<notin> set (bytes_of ''ABCDEFGHIJKLMNOPQRSTUVWXYZ'') \<Longrightarrow> spec_ascii_lower c = c"
  unfolding spec_ascii_lower_def map_of_ascii_letters upper_range by simp

lemma prohibitedWords_lower: "map (map spec_ascii_lower) prohibitedWords = prohibitedWords"
  by (simp add: prohibitedWords_def bytes_of_def spec_ascii_lower_fix)

lemma containsProhibitedWords_eq:
  "containsProhibitedWords text =
     Some (\<exists>word \<in> set prohibitedWords. \<exists>pre post. map spec_ascii_lower text = pre @ word @ post)"
proof -
  have "(\<exists>word \<in> set prohibitedWords. \<exists>pre post. map spec_ascii_lower text = pre @ map spec_ascii_lower word @ post)
      = (\<exists>word \<in> set (map (map spec_ascii_lower) prohibitedWords). \<exists>pre post. map spec_ascii_lower text = pre @ word @ post)"
    by simp
  then show ?thesis
    by (simp only: containsProhibitedWords_def containsProhibitedWords_loop_eq prohibitedWords_lower)
qed


text \<open>
  Claim C10. The lowercasing of the content filter is ASCII-only: \<open>toLower\<close> maps every
  byte that is an upper-case ASCII letter to its lower-case counterpart and leaves every
  other byte, so every byte of a multi-byte UTF-8 character, unchanged. Hence
  \<open>containsIgnoreCase\<close> never panics and answers whether the ASCII-lowercased \<open>substr\<close> is a
  contiguous part of the ASCII-lowercased \<open>s\<close>, and the verdict of the filter is: some
  denylisted word is a contiguous part of the ASCII-lowercased text. The denylisted
  Cyrillic word written in capitals (U+0419 U+0426 U+0423 U+041A U+0415 U+041D) is not
  found.
\<close>

theorem toLower_ascii_only:
  "toLower s = map spec_ascii_lower s \<and>
   containsIgnoreCase s substr =
     Some (\<exists>pre post. map spec_ascii_lower s = pre @ map spec_ascii_lower substr @ post) \<and>
   containsProhibitedWords s =
     Some (\<exists>word \<in> set prohibitedWords. \<exists>pre post. map spec_ascii_lower s = pre @ word @ post) \<and>
   containsProhibitedWords
     (concat (map spec_utf8 [0x419, 0x426, 0x423, 0x41A, 0x415, 0x41D])) = Some False"
proof -
  have "containsProhibitedWords
          (concat (map spec_utf8 [0x419, 0x426, 0x423, 0x41A, 0x415, 0x41D])) = Some False"
    by code_simp
  then show ?thesis
    by (simp only: toLower_map containsIgnoreCase_eq containsProhibitedWords_eq simp_thms)
qed

theorem toLower_ascii_only_witness:
  "toLower (bytes_of ''QwErTy 1'') = bytes_of ''qwerty 1'' \<and>
   containsIgnoreCase (bytes_of ''aQWERTYb'') (bytes_of ''qWeRtY'') = Some True \<and>
   containsProhibitedWords (bytes_of ''aQWERTYb'') = Some True"
proof -
  have low: "map spec_ascii_lower (bytes_of ''aQWERTYb'') = bytes_of ''aqwertyb''"
            "map spec_ascii_lower (bytes_of ''qWeRtY'') = bytes_of ''qwerty''"
            "map spec_ascii_lower (bytes_of ''QwErTy 1'') = bytes_of ''qwerty 1''"
    by (simp_all add: spec_ascii_lower_def ascii_letters_def bytes_of_def)
  have split: "bytes_of ''aqwertyb'' = bytes_of ''a'' @ bytes_of ''qwerty'' @ bytes_of ''b''"
    by (simp add: bytes_of_def)
  have word: "bytes_of ''qwerty'' \<in> set prohibitedWords"
    by (simp add: prohibitedWords_def)
  from split have ex: "\<exists>pre post. bytes_of ''aqwertyb'' = pre @ bytes_of ''qwerty'' @ post"
    by blast
  with word have ex': "\<exists>word \<in> set prohibitedWords. \<exists>pre post. bytes_of ''aqwertyb'' = pre @ word @ post"
    by blast
  show ?thesis
    using toLower_ascii_only [of "bytes_of ''QwErTy 1''" "bytes_of ''qWeRtY''"]
          toLower_ascii_only [of "bytes_of ''aQWERTYb''" "bytes_of ''qWeRtY''"] ex ex'
    by (simp only: low simp_thms)
qed

text \<open>
  Claim C1. The content filter answers 400 exactly when the ASCII-lowercased text holds
  a denylisted word, so it does not reject every text that holds a denylisted word in any
  letter case. The text below is the denylisted Cyrillic word in capitals: lowercasing
  its letters as Unicode does gives the second denylisted word, yet \<open>checkHandler\<close> answers
  200, while it answers 400 to the word in small letters.
\<close>

theorem checkHandler_accepts_cyrillic_capitals:
  "concat (map spec_utf8 (map spec_unicode_lower [0x419, 0x426, 0x423, 0x41A, 0x415, 0x41D]))
     = prohibitedWords ! 1 \<and>
   checkHandler
     \<lparr>Method = ''POST'', URL_Path = ''/check'', URL_Query = (\<lambda>key. []),
      Header_X_Request_ID = [], Context_request_id = None,
      Body = Some \<lparr>check_Text = concat (map spec_utf8 [0x419, 0x426, 0x423, 0x41A, 0x415, 0x41D])\<rparr>\<rparr>
     = Some \<lparr>StatusCode = 200, Content = JSONMessage ''Text passed censorship check''\<rparr> \<and>
   checkHandler
     \<lparr>Method = ''POST'', URL_Path = ''/check'', URL_Query = (\<lambda>key. []),
      Header_X_Request_ID = [], Context_request_id = None,
      Body = Some \<lparr>check_Text = prohibitedWords ! 1\<rparr>\<rparr>
     = Some (http_Error ''Text contains prohibited content'' 400)"
proof -
  have a: "concat (map spec_utf8 (map spec_unicode_lower [0x419, 0x426, 0x423, 0x41A, 0x415, 0x41D]))
             = prohibitedWords ! 1"
    by (simp add: spec_utf8_def spec_unicode_lower_def prohibitedWords_def)
  have b: "containsProhibitedWords
             (concat (map spec_utf8 [0x419, 0x426, 0x423, 0x41A, 0x415, 0x41D])) = Some False"
    by code_simp
  have c: "containsProhibitedWords (prohibitedWords ! 1) = Some True"
    by code_simp
  have h: "\<And>text. checkHandler
             \<lparr>Method = ''POST'', URL_Path = ''/check'', URL_Query = (\<lambda>key. []),
              Header_X_Request_ID = [], Context_request_id = None,
              Body = Some \<lparr>check_Text = text\<rparr>\<rparr>
           = (case containsProhibitedWords text of
                None \<Rightarrow> None
              | Some prohibited \<Rightarrow>
                  if prohibited then Some (http_Error ''Text contains prohibited content'' 400)
                  else Some \<lparr>StatusCode = 200, Content = JSONMessage ''Text passed censorship check''\<rparr>)"
    by (simp add: checkHandler_def)
  show ?thesis
    by (simp only: h a b c option.case if_True if_False simp_thms)
qed

section \<open>Properties of the comment store\<close>

lemma createCommentHandler_Some:
  "Body r = Some req \<Longrightarrow>
   createCommentHandler r s =
     (\<lparr>StatusCode = 200, Content = JSONId (nextID s)\<rparr>,
      \<lparr>comments = comments s @ [\<lparr>ID = nextID s, NewsID = req_NewsID req,
                                  ParentID = req_ParentID req, Text = req_Text req\<rparr>],
       nextID = nextID s + 1\<rparr>)"
  by (simp add: createCommentHandler_def Let_def)

lemma ID_numbered: "map ID (numbered n reqs) = [n..n + int (length reqs) - 1]"
proof (induction reqs arbitrary: n)
  case Nil
  then show ?case by simp
next
  case (Cons req reqs)
  have "[n..n + int (length (req # reqs)) - 1] = n # [n + 1..n + 1 + int (length reqs) - 1]"
    by (subst upto_rec1) (simp_all add: algebra_simps)
  with Cons.IH [of "n + 1"] show ?case by simp
qed

lemma filter_loop_eq:
  "slice_elems (filter_loop cs k acc) = slice_elems acc @ filter (\<lambda>c. NewsID c = k) cs"
proof (induction cs arbitrary: acc)
  case Nil
  then show ?case by simp
next
  case (Cons c cs)
  have "slice_elems (append_slice acc c) = slice_elems acc @ [c]"
    by (cases acc) (simp_all add: slice_elems_def)
  with Cons.IH show ?case by simp
qed

lemma filter_loop_nil:
  "(filter_loop cs k acc = None) = (acc = None \<and> filter (\<lambda>c. NewsID c = k) cs = [])"
proof (induction cs arbitrary: acc)
  case Nil
  then show ?case by simp
next
  case (Cons c cs)
  have "append_slice acc c \<noteq> None" by (cases acc) simp_all
  with Cons.IH show ?case by simp
qed

lemma filter_loop_None:
  "filter_loop cs k None =
     (if filter (\<lambda>c. NewsID c = k) cs = [] then None else Some (filter (\<lambda>c. NewsID c = k) cs))"
proof (cases "filter_loop cs k None")
  case None
  then show ?thesis by (simp add: filter_loop_nil)
next
  case (Some xs)
  then have "filter (\<lambda>c. NewsID c = k) cs \<noteq> []" using filter_loop_nil [of cs k None] by simp
  moreover have "xs = filter (\<lambda>c. NewsID c = k) cs"
    using filter_loop_eq [of cs k None] Some by (simp add: slice_elems_def)
  ultimately show ?thesis using Some by simp
qed

lemma getCommentsHandler_store: "snd (getCommentsHandler Atoi r s) = s"
  by (simp add: getCommentsHandler_def Let_def split: option.splits)

lemma getCommentsHandler_no_id: "response_id (fst (getCommentsHandler Atoi r s)) = None"
  by (simp add: getCommentsHandler_def Let_def response_id_def http_Error_def split: option.splits)

lemma process_requests_run:
  "snd (process_requests Atoi rs s) =
      \<lparr>comments = comments s @ numbered (nextID s) (payloads rs),
       nextID = nextID s + int (length (payloads rs))\<rparr> \<and>
   List.map_filter response_id (fst (process_requests Atoi rs s))
     = [nextID s..nextID s + int (length (payloads rs)) - 1]"
proof (induction rs arbitrary: s)
  case Nil
  show ?case by (simp add: payloads_def map_filter_simps)
next
  case (Cons r rs)
  show ?case
  proof (cases "Method r = ''POST'' \<and> Body r \<noteq> None")
    case True
    then obtain req where req: "Body r = Some req" by blast
    let ?s = "\<lparr>comments = comments s @ [\<lparr>ID = nextID s, NewsID = req_NewsID req,
                                  ParentID = req_ParentID req, Text = req_Text req\<rparr>],
               nextID = nextID s + 1\<rparr>"
    have h: "commentsHandler Atoi r s = (\<lparr>StatusCode = 200, Content = JSONId (nextID s)\<rparr>, ?s)"
      using True by (simp add: commentsHandler_def createCommentHandler_Some [OF req])
    have p: "payloads (r # rs) = req # payloads rs"
      using True req by (simp add: payloads_def map_filter_simps)
    have u: "[nextID s..nextID s + int (length (payloads (r # rs))) - 1]
               = nextID s # [nextID s + 1..nextID s + 1 + int (length (payloads rs)) - 1]"
      unfolding p by (subst upto_rec1) (simp_all add: algebra_simps)
    obtain resps s' where run: "process_requests Atoi rs ?s = (resps, s')"
      by (cases "process_requests Atoi rs ?s")
    from Cons.IH [of ?s] run
    have "s' = \<lparr>comments = comments ?s @ numbered (nextID ?s) (payloads rs),
                nextID = nextID ?s + int (length (payloads rs))\<rparr>"
      and "List.map_filter response_id resps = [nextID ?s..nextID ?s + int (length (payloads rs)) - 1]"
      by simp_all
    moreover have "response_id \<lparr>StatusCode = 200, Content = JSONId (nextID s)\<rparr> = Some (nextID s)"
      by (simp add: response_id_def)
    ultimately show ?thesis
      unfolding u by (simp add: h run p map_filter_simps)
  next
    case False
    have p: "payloads (r # rs) = payloads rs"
      using False by (auto simp add: payloads_def map_filter_simps)
    have e: "response_id (http_Error msg code) = None" for msg code
      by (simp add: http_Error_def response_id_def)
    have h: "snd (commentsHandler Atoi r s) = s \<and> response_id (fst (commentsHandler Atoi r s)) = None"
      using False
      by (auto simp add: commentsHandler_def getCommentsHandler_store getCommentsHandler_no_id
            createCommentHandler_def e)
    obtain resp where one: "commentsHandler Atoi r s = (resp, s)" "response_id resp = None"
      using h by (cases "commentsHandler Atoi r s") simp
    obtain resps s' where run: "process_requests Atoi rs s = (resps, s')"
      by (cases "process_requests Atoi rs s")
    from Cons.IH [of s] run show ?thesis
      unfolding p by (simp add: one map_filter_simps)
  qed
qed



text \<open>
  Claim C4. For a list request whose \<open>news_id\<close> parameter reads as the number \<open>k\<close>, in any
  state, the handler answers 200 with exactly the stored comments whose \<open>NewsID\<close> is \<open>k\<close>, in
  the order in which they were stored, and leaves the state as it is; after a run from the
  initial state these are the comments created with that key, in creation order. The
  answer depends on the comments with key \<open>k\<close> only. When none matches, the answer is still
  200 and the sequence has no element (it is the \<open>nil\<close> slice).
\<close>

theorem getCommentsHandler_lists_by_news:
  assumes "getRequestParam r ''news_id'' \<noteq> []"
      and "Atoi (getRequestParam r ''news_id'') = Some k"
  shows "getCommentsHandler Atoi r s =
           (\<lparr>StatusCode = 200,
             Content = JSONComments
               (if filter (\<lambda>c. NewsID c = k) (comments s) = [] then None
                else Some (filter (\<lambda>c. NewsID c = k) (comments s)))\<rparr>, s) \<and>
         fst (getCommentsHandler Atoi r (snd (process_requests Atoi rs initial_store))) =
           \<lparr>StatusCode = 200,
             Content = JSONComments
               (if filter (\<lambda>c. NewsID c = k) (numbered 1 (payloads rs)) = [] then None
                else Some (filter (\<lambda>c. NewsID c = k) (numbered 1 (payloads rs))))\<rparr> \<and>
         (filter (\<lambda>c. NewsID c = k) (comments s') = filter (\<lambda>c. NewsID c = k) (comments s) \<longrightarrow>
            fst (getCommentsHandler Atoi r s') = fst (getCommentsHandler Atoi r s))"
proof -
  have eq: "getCommentsHandler Atoi r t =
           (\<lparr>StatusCode = 200,
             Content = JSONComments
               (if filter (\<lambda>c. NewsID c = k) (comments t) = [] then None
                else Some (filter (\<lambda>c. NewsID c = k) (comments t)))\<rparr>, t)" for t
    using assms by (simp add: getCommentsHandler_def Let_def filter_loop_None)
  have run: "comments (snd (process_requests Atoi rs initial_store)) = numbered 1 (payloads rs)"
    using process_requests_run [of Atoi rs initial_store] by (simp add: initial_store_def)
  show ?thesis
    by (simp add: eq run)
qed

theorem getCommentsHandler_lists_by_news_witness:
  "getCommentsHandler (\<lambda>str. if str = ''7'' then Some 7 else None)
     \<lparr>Method = ''GET'', URL_Path = ''/comments'',
      URL_Query = (\<lambda>key. if key = ''news_id'' then ''7'' else []),
      Header_X_Request_ID = [], Context_request_id = None, Body = ()\<rparr>
     \<lparr>comments = [\<lparr>ID = 1, NewsID = 7, ParentID = None, Text = bytes_of ''a''\<rparr>,
                  \<lparr>ID = 2, NewsID = 8, ParentID = None, Text = bytes_of ''b''\<rparr>,
                  \<lparr>ID = 3, NewsID = 7, ParentID = Some 1, Text = bytes_of ''c''\<rparr>],
      nextID = 4\<rparr>
   = (\<lparr>StatusCode = 200,
       Content = JSONComments (Some [\<lparr>ID = 1, NewsID = 7, ParentID = None, Text = bytes_of ''a''\<rparr>,
                                     \<lparr>ID = 3, NewsID = 7, ParentID = Some 1, Text = bytes_of ''c''\<rparr>])\<rparr>,
      \<lparr>comments = [\<lparr>ID = 1, NewsID = 7, ParentID = None, Text = bytes_of ''a''\<rparr>,
                  \<lparr>ID = 2, NewsID = 8, ParentID = None, Text = bytes_of ''b''\<rparr>,
                  \<lparr>ID = 3, NewsID = 7, ParentID = Some 1, Text = bytes_of ''c''\<rparr>],
      nextID = 4\<rparr>) \<and>
   getCommentsHandler (\<lambda>str. if str = ''7'' then Some 7 else None)
     \<lparr>Method = ''GET'', URL_Path = ''/comments'',
      URL_Query = (\<lambda>key. if key = ''news_id'' then ''7'' else []),
      Header_X_Request_ID = [], Context_request_id = None, Body = ()\<rparr>
     initial_store
   = (\<lparr>StatusCode = 200, Content = JSONComments None\<rparr>, initial_store)"
proof -
  let ?Atoi = "\<lambda>str. if str = ''7'' then Some (7::int) else None"
  let ?r = "\<lparr>Method = ''GET'', URL_Path = ''/comments'',
      URL_Query = (\<lambda>key. if key = ''news_id'' then ''7'' else []),
      Header_X_Request_ID = [], Context_request_id = None, Body = ()\<rparr>"
  have a: "getRequestParam ?r ''news_id'' \<noteq> []"
    and b: "?Atoi (getRequestParam ?r ''news_id'') = Some 7"
    by (simp_all add: getRequestParam_def)
  show ?thesis
    using getCommentsHandler_lists_by_news [where Atoi = ?Atoi and r = ?r and k = 7 and s =
            "\<lparr>comments = [\<lparr>ID = 1, NewsID = 7, ParentID = None, Text = bytes_of ''a''\<rparr>,
                  \<lparr>ID = 2, NewsID = 8, ParentID = None, Text = bytes_of ''b''\<rparr>,
                  \<lparr>ID = 3, NewsID = 7, ParentID = Some 1, Text = bytes_of ''c''\<rparr>],
              nextID = 4\<rparr>", OF a b]
          getCommentsHandler_lists_by_news [where Atoi = ?Atoi and r = ?r and k = 7 and s = initial_store, OF a b]
    by (simp add: initial_store_def)
qed

subsection \<open>Create requests that overlap, and create requests served in turn\<close>

lemma serial_Cons: "serial (i # order) = [i, i, i, i] @ serial order"
  by (simp add: serial_def numeral_eq_Suc)

lemma run_schedule_four:
  assumes "i < length ts" and "ts ! i = Decoding (Some req)"
  shows "run_schedule ([i, i, i, i] @ sched) (ts, s) =
           run_schedule sched
             (ts[i := Responded \<lparr>StatusCode = 200, Content = JSONId (nextID s)\<rparr>],
              \<lparr>comments = comments s @ [\<lparr>ID = nextID s, NewsID = req_NewsID req,
                                          ParentID = req_ParentID req, Text = req_Text req\<rparr>],
               nextID = nextID s + 1\<rparr>)"
  using assms by (cases s) simp

lemma four_steps_are_createCommentHandler:
  assumes "i < length ts" and "ts ! i = Decoding (Body r)"
  shows "run_schedule [i, i, i, i] (ts, s) =
           (ts[i := Responded (fst (createCommentHandler r s))], snd (createCommentHandler r s))"
  using assms by (cases "Body r") (simp_all add: createCommentHandler_def Let_def)

lemma serial_run:
  assumes "distinct order"
      and "\<forall>i\<in>set order. i < length ts \<and> ts ! i = Decoding (Some (reqs ! i))"
  shows "snd (run_schedule (serial order) (ts, s)) =
           \<lparr>comments = comments s @ numbered (nextID s) (map ((!) reqs) order),
            nextID = nextID s + int (length order)\<rparr> \<and>
         length (fst (run_schedule (serial order) (ts, s))) = length ts \<and>
         (\<forall>k<length order. fst (run_schedule (serial order) (ts, s)) ! (order ! k) =
              Responded \<lparr>StatusCode = 200, Content = JSONId (nextID s + int k)\<rparr>) \<and>
         (\<forall>j. j \<notin> set order \<longrightarrow> fst (run_schedule (serial order) (ts, s)) ! j = ts ! j)"
  using assms
proof (induction order arbitrary: ts s)
  case Nil
  show ?case by (simp add: serial_def)
next
  case (Cons i order)
  let ?t = "ts[i := Responded \<lparr>StatusCode = 200, Content = JSONId (nextID s)\<rparr>]"
  let ?s = "\<lparr>comments = comments s @ [\<lparr>ID = nextID s, NewsID = req_NewsID (reqs ! i),
                                          ParentID = req_ParentID (reqs ! i), Text = req_Text (reqs ! i)\<rparr>],
               nextID = nextID s + 1\<rparr>"
  from Cons.prems have i: "i < length ts" "ts ! i = Decoding (Some (reqs ! i))" "i \<notin> set order"
    and d: "distinct order" by simp_all
  have run: "run_schedule (serial (i # order)) (ts, s) = run_schedule (serial order) (?t, ?s)"
    unfolding serial_Cons by (rule run_schedule_four [OF i(1) i(2)])
  have rest: "\<forall>j\<in>set order. j < length ?t \<and> ?t ! j = Decoding (Some (reqs ! j))"
  proof
    fix j
    assume j: "j \<in> set order"
    with i(3) have "j \<noteq> i" by auto
    moreover from Cons.prems(2) j have "j < length ts \<and> ts ! j = Decoding (Some (reqs ! j))" by simp
    ultimately show "j < length ?t \<and> ?t ! j = Decoding (Some (reqs ! j))" by simp
  qed
  note ih = Cons.IH [OF d rest, of ?s]
  from ih have a: "snd (run_schedule (serial order) (?t, ?s)) =
           \<lparr>comments = comments s @ numbered (nextID s) (map ((!) reqs) (i # order)),
            nextID = nextID s + int (length (i # order))\<rparr>"
    by simp
  from ih have b: "length (fst (run_schedule (serial order) (?t, ?s))) = length ts"
    by simp
  from ih i have c0: "fst (run_schedule (serial order) (?t, ?s)) ! i =
              Responded \<lparr>StatusCode = 200, Content = JSONId (nextID s)\<rparr>"
    by simp
  have c: "fst (run_schedule (serial order) (?t, ?s)) ! ((i # order) ! k) =
              Responded \<lparr>StatusCode = 200, Content = JSONId (nextID s + int k)\<rparr>"
    if "k < length (i # order)" for k
  proof (cases k)
    case 0
    with c0 show ?thesis by simp
  next
    case (Suc k')
    with that have "k' < length order" by simp
    with ih have "fst (run_schedule (serial order) (?t, ?s)) ! (order ! k') =
              Responded \<lparr>StatusCode = 200, Content = JSONId (nextID ?s + int k')\<rparr>"
      by blast
    with Suc show ?thesis by (simp add: algebra_simps)
  qed
  have e: "fst (run_schedule (serial order) (?t, ?s)) ! j = ts ! j" if "j \<notin> set (i # order)" for j
  proof -
    from that have "j \<notin> set order" "j \<noteq> i" by simp_all
    with ih show ?thesis by simp
  qed
  from a b c e show ?case unfolding run by blast
qed

lemma mset_by_permutation:
  assumes "distinct order" and "set order = {..<length xs}"
  shows "mset xs = mset (map ((!) xs) order)"
proof -
  have "mset order = mset_set (set order)"
    using assms(1) by (simp add: mset_set_set)
  also have "\<dots> = mset [0..<length xs]"
    using assms(2) by (simp add: lessThan_atLeast0)
  finally have "mset order = mset [0..<length xs]" .
  then have "mset (map ((!) xs) order) = mset (map ((!) xs) [0..<length xs])"
    by (metis mset_map)
  then show ?thesis by (simp add: map_nth)
qed

text \<open>
  Claim C9 says that any interleaving of \<open>N\<close> concurrent create requests yields the
  identifiers 1 to \<open>N\<close>, each once, because the store serialises reading the counter,
  assigning and appending. The store takes no lock. With two requests, when the second
  handler builds its comment after the first has built its own and before the first has
  increased \<open>nextID\<close>, both read \<open>nextID = 1\<close>: both responses carry the identifier 1, both
  stored comments have it, and the identifiers returned are not 1 and 2.
\<close>

theorem overlapping_creates_duplicate_id:
  "map returned_id (fst (run_schedule [0, 1, 0, 0, 0, 1, 1, 1]
      ([Decoding (Some \<lparr>req_NewsID = 5, req_ParentID = None, req_Text = bytes_of ''a''\<rparr>),
        Decoding (Some \<lparr>req_NewsID = 5, req_ParentID = None, req_Text = bytes_of ''b''\<rparr>)],
       initial_store)))
     = [Some 1, Some 1] \<and>
   comments (snd (run_schedule [0, 1, 0, 0, 0, 1, 1, 1]
      ([Decoding (Some \<lparr>req_NewsID = 5, req_ParentID = None, req_Text = bytes_of ''a''\<rparr>),
        Decoding (Some \<lparr>req_NewsID = 5, req_ParentID = None, req_Text = bytes_of ''b''\<rparr>)],
       initial_store)))
     = [\<lparr>ID = 1, NewsID = 5, ParentID = None, Text = bytes_of ''a''\<rparr>,
        \<lparr>ID = 1, NewsID = 5, ParentID = None, Text = bytes_of ''b''\<rparr>] \<and>
   mset (map returned_id (fst (run_schedule [0, 1, 0, 0, 0, 1, 1, 1]
      ([Decoding (Some \<lparr>req_NewsID = 5, req_ParentID = None, req_Text = bytes_of ''a''\<rparr>),
        Decoding (Some \<lparr>req_NewsID = 5, req_ParentID = None, req_Text = bytes_of ''b''\<rparr>)],
       initial_store))))
     \<noteq> mset (map Some [1..int (length
          [\<lparr>req_NewsID = 5, req_ParentID = None, req_Text = bytes_of ''a''\<rparr>,
           \<lparr>req_NewsID = 5, req_ParentID = None, req_Text = bytes_of ''b''\<rparr>])])"
  by (simp add: initial_store_def upto_rec1)

text \<open>
  Claim C9, as the code has it. When the \<open>N\<close> create requests are served one after
  another, each handler running its four steps before the next starts, in whatever order
  the requests are taken up, the handler served \<open>k\<close>-th returns the identifier \<open>k\<close>: the
  identifiers returned are 1 to \<open>N\<close>, each exactly once, the stored comments carry
  them in that order, and \<open>nextID\<close> ends at \<open>N + 1\<close>.
\<close>

theorem serial_creates_ids:
  assumes "distinct order" and "set order = {..<length reqs}"
  shows "map (\<lambda>i. returned_id (fst (run_schedule (serial order)
                     (map (\<lambda>req. Decoding (Some req)) reqs, initial_store)) ! i)) order
           = map Some [1..int (length reqs)] \<and>
         mset (map returned_id (fst (run_schedule (serial order)
                     (map (\<lambda>req. Decoding (Some req)) reqs, initial_store))))
           = mset (map Some [1..int (length reqs)]) \<and>
         map ID (comments (snd (run_schedule (serial order)
                     (map (\<lambda>req. Decoding (Some req)) reqs, initial_store))))
           = [1..int (length reqs)] \<and>
         nextID (snd (run_schedule (serial order)
                     (map (\<lambda>req. Decoding (Some req)) reqs, initial_store)))
           = int (length reqs) + 1"
proof -
  let ?ts = "map (\<lambda>req. Decoding (Some req)) reqs"
  let ?run = "run_schedule (serial order) (?ts, initial_store)"
  have n: "length order = length reqs"
    using assms by (metis card_lessThan distinct_card)
  have pre: "\<forall>i\<in>set order. i < length ?ts \<and> ?ts ! i = Decoding (Some (reqs ! i))"
    using assms(2) by simp
  note run = serial_run [OF assms(1) pre, of initial_store]
  have len: "length (fst ?run) = length reqs"
    using run by simp
  have kth: "returned_id (fst ?run ! (order ! k)) = Some (1 + int k)" if "k < length order" for k
    using run that by (simp add: initial_store_def)
  have upto: "[1..int (length reqs)] = map (\<lambda>k. 1 + int k) [0..<length order]"
    unfolding n by (induction reqs rule: rev_induct) (simp_all add: upto_rec2)
  have served: "map (\<lambda>i. returned_id (fst ?run ! i)) order = map Some [1..int (length reqs)]"
    unfolding upto by (rule nth_equalityI) (simp_all add: kth)
  have "mset (map returned_id (fst ?run)) = mset (map ((!) (map returned_id (fst ?run))) order)"
    by (rule mset_by_permutation) (simp_all add: assms len)
  also have "map ((!) (map returned_id (fst ?run))) order = map (\<lambda>i. returned_id (fst ?run ! i)) order"
    using assms(2) len by simp
  finally have ms: "mset (map returned_id (fst ?run)) = mset (map Some [1..int (length reqs)])"
    unfolding served .
  have st: "snd ?run = \<lparr>comments = numbered 1 (map ((!) reqs) order), nextID = 1 + int (length order)\<rparr>"
    using run by (simp add: initial_store_def)
  have ids: "map ID (comments (snd ?run)) = [1..int (length reqs)]"
    unfolding st using ID_numbered [of 1 "map ((!) reqs) order"] by (simp add: n)
  have nx: "nextID (snd ?run) = int (length reqs) + 1"
    unfolding st by (simp add: n)
  from served ms ids nx show ?thesis by blast
qed

theorem serial_creates_ids_witness:
  "distinct [1, 0 :: nat] \<and>
   set [1, 0] = {..<length [\<lparr>req_NewsID = 5, req_ParentID = None, req_Text = bytes_of ''a''\<rparr>,
                            \<lparr>req_NewsID = 5, req_ParentID = None, req_Text = bytes_of ''b''\<rparr>]} \<and>
   map (\<lambda>i. returned_id (fst (run_schedule (serial [1, 0])
      ([Decoding (Some \<lparr>req_NewsID = 5, req_ParentID = None, req_Text = bytes_of ''a''\<rparr>),
        Decoding (Some \<lparr>req_NewsID = 5, req_ParentID = None, req_Text = bytes_of ''b''\<rparr>)],
       initial_store)) ! i)) [1, 0]
     = [Some 1, Some 2]"
proof -
  let ?reqs = "[\<lparr>req_NewsID = 5, req_ParentID = None, req_Text = bytes_of ''a''\<rparr>,
                \<lparr>req_NewsID = 5, req_ParentID = None, req_Text = bytes_of ''b''\<rparr>]"
  have d: "distinct [1, 0 :: nat]" by simp
  have p: "set [1, 0] = {..<length ?reqs}" by auto
  have u: "[1..2::int] = [1, 2]" by (simp add: upto_rec1)
  from serial_creates_ids [OF d p] u d p show ?thesis by simp
qed

section \<open>Properties of the gateway\<close>

lemma validate_eq:
  "validateCommentWithCensorService net text requestID e =
     (if check_passed (fst (net (world e) (censor_request text requestID))) then None
      else Some (case fst (net (world e) (censor_request text requestID)) of
                   None \<Rightarrow> TransportError
                 | Some resp \<Rightarrow> if StatusCode resp = 400 then CensorRejected
                                else CensorUnexpectedStatus (StatusCode resp)),
      \<lparr>world = snd (net (world e) (censor_request text requestID)),
       calls = calls e @ [censor_request text requestID]\<rparr>)"
  by (cases "net (world e) (censor_request text requestID)")
     (auto simp add: validateCommentWithCensorService_def client_Do_def check_passed_def
           split: option.splits)

lemma save_eq:
  "saveCommentToService net comment requestID e =
     (if save_succeeded (fst (net (world e) (save_request comment requestID))) then None
      else Some (case fst (net (world e) (save_request comment requestID)) of
                   None \<Rightarrow> TransportError
                 | Some resp \<Rightarrow> CommentServiceStatus (StatusCode resp)),
      \<lparr>world = snd (net (world e) (save_request comment requestID)),
       calls = calls e @ [save_request comment requestID]\<rparr>)"
  by (cases "net (world e) (save_request comment requestID)")
     (auto simp add: saveCommentToService_def client_Do_def save_succeeded_def
           split: option.splits)

lemma commentHandler_eq:
  assumes "Method r = ''POST''" and "Body r = Some comment"
  shows "commentHandler net r e =
    (let cq = censor_request (Text comment) (getRequestID r);
         sq = save_request comment (getRequestID r);
         w1 = snd (net (world e) cq);
         w2 = snd (net w1 sq)
     in if \<not> check_passed (fst (net (world e) cq))
        then (http_Error ''Comment contains prohibited content'' 400,
              \<lparr>world = w1, calls = calls e @ [cq]\<rparr>)
        else if \<not> save_succeeded (fst (net w1 sq))
        then (http_Error ''Failed to save comment'' 500,
              \<lparr>world = w2, calls = calls e @ [cq, sq]\<rparr>)
        else (\<lparr>StatusCode = 200, Content = JSONCreated ''Comment created successfully'' 1\<rparr>,
              \<lparr>world = w2, calls = calls e @ [cq, sq]\<rparr>))"
  using assms by (simp add: commentHandler_def validate_eq save_eq Let_def)

lemma getCommentsForNews_eq:
  "getCommentsForNews Sprint_d net newsID requestID e =
     (case fst (net (world e) (comments_request Sprint_d newsID requestID)) of
        None \<Rightarrow> Inl TransportError
      | Some resp \<Rightarrow>
          if StatusCode resp \<noteq> 200 then Inl (CommentServiceStatus (StatusCode resp))
          else (case decode_Comments (Content resp) of
                  None \<Rightarrow> Inl DecodeError | Some fetched \<Rightarrow> Inr fetched),
      \<lparr>world = snd (net (world e) (comments_request Sprint_d newsID requestID)),
       calls = calls e @ [comments_request Sprint_d newsID requestID]\<rparr>)"
  by (cases "net (world e) (comments_request Sprint_d newsID requestID)")
     (auto simp add: getCommentsForNews_def client_Do_def split: option.splits)

lemma newsDetailHandler_eq:
  assumes "Method r = ''GET''"
      and "TrimPrefix (URL_Path r) ''/news/'' \<noteq> []"
      and "Atoi (TrimPrefix (URL_Path r) ''/news/'') = Some newsID"
  shows "newsDetailHandler Atoi Sprint_d now net r e =
    (let q = comments_request Sprint_d newsID (getRequestID r);
         answer = fst (net (world e) q)
     in (\<lparr>StatusCode = 200,
          Content = JSONNews
            \<lparr>news_ID = newsID, news_Title = ''News '' @ Sprint_d newsID,
             news_Content = ''Content of news '' @ Sprint_d newsID,
             news_PubTime = now,
             news_Comments =
               (if list_succeeded answer
                then (case decode_Comments (Content (the answer)) of Some fetched \<Rightarrow> fetched | None \<Rightarrow> Some [])
                else Some [])\<rparr>\<rparr>,
         \<lparr>world = snd (net (world e) q), calls = calls e @ [q]\<rparr>))"
  using assms
  by (auto simp add: newsDetailHandler_def getCommentsForNews_eq Let_def list_succeeded_def
        split: option.splits)

lemma loopback_check:
  "loopback Atoi uuid s (censor_request text requestID) =
     (checkHandler
        \<lparr>Method = ''POST'', URL_Path = ''/check'', URL_Query = (\<lambda>key. []),
         Header_X_Request_ID = requestID,
         Context_request_id = Some (if requestID = [] then uuid else requestID),
         Body = Some \<lparr>check_Text = text\<rparr>\<rparr>, s)"
  by (simp add: loopback_def censor_request_def loggingMiddleware_def Let_def)

lemma checkHandler_post:
  "checkHandler
        \<lparr>Method = ''POST'', URL_Path = p, URL_Query = f, Header_X_Request_ID = h,
         Context_request_id = c, Body = Some \<lparr>check_Text = text\<rparr>\<rparr>
     = (case containsProhibitedWords text of
          None \<Rightarrow> None
        | Some prohibited \<Rightarrow>
            if prohibited then Some (http_Error ''Text contains prohibited content'' 400)
            else Some \<lparr>StatusCode = 200, Content = JSONMessage ''Text passed censorship check''\<rparr>)"
  by (simp add: checkHandler_def)

lemma loopback_save:
  "loopback Atoi uuid s (save_request comment requestID) =
     (Some \<lparr>StatusCode = 200, Content = JSONId (nextID s)\<rparr>,
      \<lparr>comments = comments s @ [\<lparr>ID = nextID s, NewsID = NewsID comment,
                                  ParentID = ParentID comment, Text = Text comment\<rparr>],
       nextID = nextID s + 1\<rparr>)"
  by (simp add: loopback_def save_request_def loggingMiddleware_def Let_def commentsHandler_def
        createCommentHandler_def)

lemma loopback_ignores_request_id:
  "loopback Atoi uuid w (q\<lparr>c_X_Request_ID := x\<rparr>) = loopback Atoi uuid w q"
  by (simp add: loopback_def loggingMiddleware_def Let_def checkHandler_def commentsHandler_def
        getCommentsHandler_def createCommentHandler_def getRequestParam_def)

text \<open>
  Claim C2. For a comment request that decodes, when the call to the content filter does
  not come back with status 200 (the text was rejected, the call failed on the network or
  timed out, or the filter answered with any other status), the gateway answers 400
  "Comment contains prohibited content", whatever the cause, and the only request it has
  sent is the one to the filter: no request goes to the comment store, and the world is
  as the filter call left it.
\<close>

theorem commentHandler_filter_failure:
  assumes "Method r = ''POST''" and "Body r = Some comment"
      and "\<forall>resp. fst (net (world e) (censor_request (Text comment) (getRequestID r))) = Some resp
             \<longrightarrow> StatusCode resp \<noteq> 200"
  shows "commentHandler net r e =
           (http_Error ''Comment contains prohibited content'' 400,
            \<lparr>world = snd (net (world e) (censor_request (Text comment) (getRequestID r))),
             calls = calls e @ [censor_request (Text comment) (getRequestID r)]\<rparr>) \<and>
         filter (\<lambda>q. c_URL q = ''http://localhost:8081/comments'') (calls (snd (commentHandler net r e)))
           = filter (\<lambda>q. c_URL q = ''http://localhost:8081/comments'') (calls e)"
proof -
  from assms(3) have "\<not> check_passed (fst (net (world e) (censor_request (Text comment) (getRequestID r))))"
    by (auto simp add: check_passed_def split: option.splits)
  then have "commentHandler net r e =
           (http_Error ''Comment contains prohibited content'' 400,
            \<lparr>world = snd (net (world e) (censor_request (Text comment) (getRequestID r))),
             calls = calls e @ [censor_request (Text comment) (getRequestID r)]\<rparr>)"
    by (simp add: commentHandler_eq [OF assms(1,2)] Let_def)
  then show ?thesis by (simp add: censor_request_def)
qed

theorem commentHandler_filter_failure_witness:
  "commentHandler (loopback (\<lambda>str. None) ''uuid-1'')
     \<lparr>Method = ''POST'', URL_Path = ''/comment'', URL_Query = (\<lambda>key. []),
      Header_X_Request_ID = ''req-1'', Context_request_id = Some ''req-1'',
      Body = Some \<lparr>ID = 0, NewsID = 3, ParentID = None, Text = bytes_of ''QWERTY123''\<rparr>\<rparr>
     \<lparr>world = initial_store, calls = []\<rparr>
   = (http_Error ''Comment contains prohibited content'' 400,
      \<lparr>world = initial_store, calls = [censor_request (bytes_of ''QWERTY123'') ''req-1'']\<rparr>) \<and>
   commentHandler (\<lambda>w q. (None, w))
     \<lparr>Method = ''POST'', URL_Path = ''/comment'', URL_Query = (\<lambda>key. []),
      Header_X_Request_ID = ''req-1'', Context_request_id = Some ''req-1'',
      Body = Some \<lparr>ID = 0, NewsID = 3, ParentID = None, Text = bytes_of ''hello''\<rparr>\<rparr>
     \<lparr>world = initial_store, calls = []\<rparr>
   = (http_Error ''Comment contains prohibited content'' 400,
      \<lparr>world = initial_store, calls = [censor_request (bytes_of ''hello'') ''req-1'']\<rparr>)"
proof -
  let ?r = "\<lambda>text. \<lparr>Method = ''POST'', URL_Path = ''/comment'', URL_Query = (\<lambda>key. []),
      Header_X_Request_ID = ''req-1'', Context_request_id = Some ''req-1'',
      Body = Some \<lparr>ID = 0, NewsID = 3, ParentID = None, Text = text\<rparr>\<rparr>"
  let ?e = "\<lparr>world = initial_store, calls = []\<rparr>"
  have id: "getRequestID (?r t) = ''req-1''" for t
    by (simp add: getRequestID_def)
  have found: "containsProhibitedWords (bytes_of ''QWERTY123'') = Some True"
    by code_simp
  have rejected: "loopback (\<lambda>str. None) ''uuid-1'' initial_store (censor_request (bytes_of ''QWERTY123'') ''req-1'')
                    = (Some (http_Error ''Text contains prohibited content'' 400), initial_store)"
    by (simp add: loopback_check checkHandler_post found)
  have h1: "\<forall>resp. fst (loopback (\<lambda>str. None) ''uuid-1'' (world ?e)
                  (censor_request (Text \<lparr>ID = 0, NewsID = 3, ParentID = None, Text = bytes_of ''QWERTY123''\<rparr>)
                     (getRequestID (?r (bytes_of ''QWERTY123''))))) = Some resp
             \<longrightarrow> StatusCode resp \<noteq> 200"
    by (simp add: id rejected http_Error_def)
  have h2: "\<forall>resp. fst ((\<lambda>w q. (None, w)) (world ?e)
                  (censor_request (Text \<lparr>ID = 0, NewsID = 3, ParentID = None, Text = bytes_of ''hello''\<rparr>)
                     (getRequestID (?r (bytes_of ''hello''))))) = Some resp
             \<longrightarrow> StatusCode resp \<noteq> 200"
    by simp
  have m: "Method (?r t) = ''POST''" for t by simp
  have b: "Body (?r t) = Some \<lparr>ID = 0, NewsID = 3, ParentID = None, Text = t\<rparr>" for t by simp
  from commentHandler_filter_failure
         [where net = "loopback (\<lambda>str. None) ''uuid-1''" and r = "?r (bytes_of ''QWERTY123'')"
            and comment = "\<lparr>ID = 0, NewsID = 3, ParentID = None, Text = bytes_of ''QWERTY123''\<rparr>"
            and e = ?e, OF m b h1]
       commentHandler_filter_failure
         [where net = "\<lambda>w q. (None, w)" and r = "?r (bytes_of ''hello'')"
            and comment = "\<lparr>ID = 0, NewsID = 3, ParentID = None, Text = bytes_of ''hello''\<rparr>"
            and e = ?e, OF m b h2]
  show ?thesis by (simp add: id rejected)
qed

text \<open>
  Claim C6. For a comment request whose text passed the filter, when the call to the
  comment store fails (on the network, or with a status other than 200 and 201), the
  gateway answers 500 "Failed to save comment". It has sent the filter request and one
  store request and nothing else: no second attempt and no request that undoes anything.
\<close>

theorem commentHandler_store_failure:
  assumes "Method r = ''POST''" and "Body r = Some comment"
      and "net (world e) (censor_request (Text comment) (getRequestID r)) = (Some passed, w)"
      and "StatusCode passed = 200"
      and "\<forall>resp. fst (net w (save_request comment (getRequestID r))) = Some resp
             \<longrightarrow> StatusCode resp \<noteq> 200 \<and> StatusCode resp \<noteq> 201"
  shows "commentHandler net r e =
           (http_Error ''Failed to save comment'' 500,
            \<lparr>world = snd (net w (save_request comment (getRequestID r))),
             calls = calls e @ [censor_request (Text comment) (getRequestID r),
                                save_request comment (getRequestID r)]\<rparr>)"
proof -
  from assms(3,4) have "check_passed (fst (net (world e) (censor_request (Text comment) (getRequestID r))))"
    by (simp add: check_passed_def)
  moreover from assms(5) have "\<not> save_succeeded (fst (net w (save_request comment (getRequestID r))))"
    by (auto simp add: save_succeeded_def split: option.splits)
  ultimately show ?thesis
    using assms(3) by (simp add: commentHandler_eq [OF assms(1,2)] Let_def)
qed

theorem commentHandler_store_failure_witness:
  "commentHandler
     (\<lambda>w q. if c_URL q = ''http://localhost:8082/check''
             then (Some \<lparr>StatusCode = 200, Content = JSONMessage ''Text passed censorship check''\<rparr>, w)
             else (None, w))
     \<lparr>Method = ''POST'', URL_Path = ''/comment'', URL_Query = (\<lambda>key. []),
      Header_X_Request_ID = ''req-1'', Context_request_id = Some ''req-1'',
      Body = Some \<lparr>ID = 0, NewsID = 3, ParentID = None, Text = bytes_of ''hello''\<rparr>\<rparr>
     \<lparr>world = initial_store, calls = []\<rparr>
   = (http_Error ''Failed to save comment'' 500,
      \<lparr>world = initial_store,
       calls = [censor_request (bytes_of ''hello'') ''req-1'',
                save_request \<lparr>ID = 0, NewsID = 3, ParentID = None, Text = bytes_of ''hello''\<rparr> ''req-1'']\<rparr>)"
proof -
  let ?net = "\<lambda>(w::store) q. if c_URL q = ''http://localhost:8082/check''
             then (Some \<lparr>StatusCode = 200, Content = JSONMessage ''Text passed censorship check''\<rparr>, w)
             else (None, w)"
  let ?c = "\<lparr>ID = 0, NewsID = 3, ParentID = None, Text = bytes_of ''hello''\<rparr>"
  let ?r = "\<lparr>Method = ''POST'', URL_Path = ''/comment'', URL_Query = (\<lambda>key. []),
      Header_X_Request_ID = ''req-1'', Context_request_id = Some ''req-1'', Body = Some ?c\<rparr>"
  let ?e = "\<lparr>world = initial_store, calls = []\<rparr>"
  have id: "getRequestID ?r = ''req-1''"
    by (simp add: getRequestID_def)
  have m: "Method ?r = ''POST''" and b: "Body ?r = Some ?c" by simp_all
  have p: "?net (world ?e) (censor_request (Text ?c) (getRequestID ?r))
             = (Some \<lparr>StatusCode = 200, Content = JSONMessage ''Text passed censorship check''\<rparr>, initial_store)"
    by (simp add: censor_request_def)
  have ok: "StatusCode \<lparr>StatusCode = 200, Content = JSONMessage ''Text passed censorship check''\<rparr> = 200"
    by simp
  have f: "\<forall>resp. fst (?net initial_store (save_request ?c (getRequestID ?r))) = Some resp
             \<longrightarrow> StatusCode resp \<noteq> 200 \<and> StatusCode resp \<noteq> 201"
    by (simp add: save_request_def)
  from commentHandler_store_failure [where r = ?r and comment = ?c and net = ?net and e = ?e, OF m b p ok f]
  show ?thesis by (simp add: id save_request_def)
qed

text \<open>
  Claim C7. Every response of \<open>commentHandler\<close> with status 200 carries the identifier 1;
  in particular, when the filter passes the text and the store saves the comment, the
  response is "Comment created successfully" with identifier 1, whatever the store
  answered in its body.
\<close>

theorem commentHandler_placeholder_id:
  "(StatusCode (fst (commentHandler net r e)) = 200 \<longrightarrow>
      Content (fst (commentHandler net r e)) = JSONCreated ''Comment created successfully'' 1) \<and>
   (Method r = ''POST'' \<longrightarrow> Body r = Some comment \<longrightarrow>
    net (world e) (censor_request (Text comment) (getRequestID r)) = (Some passed, w) \<longrightarrow>
    StatusCode passed = 200 \<longrightarrow>
    net w (save_request comment (getRequestID r)) = (Some saved, w') \<longrightarrow>
    StatusCode saved = 200 \<or> StatusCode saved = 201 \<longrightarrow>
      commentHandler net r e =
        (\<lparr>StatusCode = 200, Content = JSONCreated ''Comment created successfully'' 1\<rparr>,
         \<lparr>world = w', calls = calls e @ [censor_request (Text comment) (getRequestID r),
                                         save_request comment (getRequestID r)]\<rparr>))"
proof -
  have a: "StatusCode (fst (commentHandler net r e)) = 200 \<longrightarrow>
      Content (fst (commentHandler net r e)) = JSONCreated ''Comment created successfully'' 1"
  proof (cases "Method r = ''POST''")
    case False
    then show ?thesis by (simp add: commentHandler_def http_Error_def)
  next
    case True
    show ?thesis
    proof (cases "Body r")
      case None
      with True show ?thesis by (simp add: commentHandler_def http_Error_def)
    next
      case (Some c)
      show ?thesis
        by (simp add: commentHandler_eq [OF True Some] Let_def http_Error_def)
    qed
  qed
  have b: "commentHandler net r e =
        (\<lparr>StatusCode = 200, Content = JSONCreated ''Comment created successfully'' 1\<rparr>,
         \<lparr>world = w', calls = calls e @ [censor_request (Text comment) (getRequestID r),
                                         save_request comment (getRequestID r)]\<rparr>)"
    if "Method r = ''POST''" "Body r = Some comment"
       "net (world e) (censor_request (Text comment) (getRequestID r)) = (Some passed, w)"
       "StatusCode passed = 200"
       "net w (save_request comment (getRequestID r)) = (Some saved, w')"
       "StatusCode saved = 200 \<or> StatusCode saved = 201"
    using that by (simp add: commentHandler_eq [OF that(1,2)] Let_def check_passed_def save_succeeded_def)
  from a b show ?thesis by blast
qed

theorem commentHandler_placeholder_id_witness:
  "commentHandler (loopback (\<lambda>str. None) ''uuid-1'')
     \<lparr>Method = ''POST'', URL_Path = ''/comment'', URL_Query = (\<lambda>key. []),
      Header_X_Request_ID = ''req-1'', Context_request_id = Some ''req-1'',
      Body = Some \<lparr>ID = 0, NewsID = 3, ParentID = Some 1, Text = bytes_of ''hello''\<rparr>\<rparr>
     \<lparr>world = \<lparr>comments = [\<lparr>ID = 1, NewsID = 3, ParentID = None, Text = bytes_of ''first''\<rparr>],
               nextID = 2\<rparr>,
      calls = []\<rparr>
   = (\<lparr>StatusCode = 200, Content = JSONCreated ''Comment created successfully'' 1\<rparr>,
      \<lparr>world = \<lparr>comments = [\<lparr>ID = 1, NewsID = 3, ParentID = None, Text = bytes_of ''first''\<rparr>,
                            \<lparr>ID = 2, NewsID = 3, ParentID = Some 1, Text = bytes_of ''hello''\<rparr>],
                nextID = 3\<rparr>,
       calls = [censor_request (bytes_of ''hello'') ''req-1'',
                save_request \<lparr>ID = 0, NewsID = 3, ParentID = Some 1, Text = bytes_of ''hello''\<rparr> ''req-1'']\<rparr>) \<and>
   fst (loopback (\<lambda>str. None) ''uuid-1''
          \<lparr>comments = [\<lparr>ID = 1, NewsID = 3, ParentID = None, Text = bytes_of ''first''\<rparr>], nextID = 2\<rparr>
          (save_request \<lparr>ID = 0, NewsID = 3, ParentID = Some 1, Text = bytes_of ''hello''\<rparr> ''req-1''))
   = Some \<lparr>StatusCode = 200, Content = JSONId 2\<rparr>"
proof -
  let ?net = "loopback (\<lambda>str. None) ''uuid-1''"
  let ?c = "\<lparr>ID = 0, NewsID = 3, ParentID = Some 1, Text = bytes_of ''hello''\<rparr>"
  let ?r = "\<lparr>Method = ''POST'', URL_Path = ''/comment'', URL_Query = (\<lambda>key. []),
      Header_X_Request_ID = ''req-1'', Context_request_id = Some ''req-1'', Body = Some ?c\<rparr>"
  let ?s = "\<lparr>comments = [\<lparr>ID = 1, NewsID = 3, ParentID = None, Text = bytes_of ''first''\<rparr>], nextID = 2\<rparr>"
  let ?s' = "\<lparr>comments = [\<lparr>ID = 1, NewsID = 3, ParentID = None, Text = bytes_of ''first''\<rparr>,
                            \<lparr>ID = 2, NewsID = 3, ParentID = Some 1, Text = bytes_of ''hello''\<rparr>],
                nextID = 3\<rparr>"
  let ?e = "\<lparr>world = ?s, calls = []\<rparr>"
  let ?ok = "\<lparr>StatusCode = 200, Content = JSONMessage ''Text passed censorship check''\<rparr>"
  let ?saved = "\<lparr>StatusCode = 200, Content = JSONId 2\<rparr>"
  have id: "getRequestID ?r = ''req-1''"
    by (simp add: getRequestID_def)
  have clean: "containsProhibitedWords (bytes_of ''hello'') = Some False"
    by code_simp
  have m: "Method ?r = ''POST''" and b: "Body ?r = Some ?c" by simp_all
  have p: "?net (world ?e) (censor_request (Text ?c) (getRequestID ?r)) = (Some ?ok, ?s)"
    by (simp add: id loopback_check checkHandler_post clean)
  have ok: "StatusCode ?ok = 200" by simp
  have sv: "?net ?s (save_request ?c (getRequestID ?r)) = (Some ?saved, ?s')"
    by (simp add: id loopback_save)
  have st: "StatusCode ?saved = 200 \<or> StatusCode ?saved = 201" by simp
  from commentHandler_placeholder_id
         [where net = ?net and r = ?r and e = ?e and comment = ?c and passed = ?ok and w = ?s
            and saved = ?saved and w' = ?s', THEN conjunct2, rule_format, OF m b p ok sv st]
       sv
  show ?thesis by (simp add: id)
qed

text \<open>
  Claim C5. For a GET request to \<open>/news/{id}\<close> whose identifier reads as a number, when the
  call that lists the comments fails (the store cannot be reached, it answers with a status
  other than 200, or its body does not decode), the gateway still answers 200 with the
  news item and an empty, non-\<open>nil\<close> list of comments.
\<close>

theorem newsDetailHandler_degrades:
  assumes "Method r = ''GET''"
      and "TrimPrefix (URL_Path r) ''/news/'' \<noteq> []"
      and "Atoi (TrimPrefix (URL_Path r) ''/news/'') = Some newsID"
      and "\<forall>resp. fst (net (world e) (comments_request Sprint_d newsID (getRequestID r))) = Some resp
             \<longrightarrow> StatusCode resp \<noteq> 200 \<or> decode_Comments (Content resp) = None"
  shows "newsDetailHandler Atoi Sprint_d now net r e =
           (\<lparr>StatusCode = 200,
             Content = JSONNews
               \<lparr>news_ID = newsID, news_Title = ''News '' @ Sprint_d newsID,
                news_Content = ''Content of news '' @ Sprint_d newsID,
                news_PubTime = now, news_Comments = Some []\<rparr>\<rparr>,
            \<lparr>world = snd (net (world e) (comments_request Sprint_d newsID (getRequestID r))),
             calls = calls e @ [comments_request Sprint_d newsID (getRequestID r)]\<rparr>)"
proof -
  from assms(4)
  have "\<not> list_succeeded (fst (net (world e) (comments_request Sprint_d newsID (getRequestID r))))"
    by (auto simp add: list_succeeded_def split: option.splits)
  then show ?thesis
    by (simp add: newsDetailHandler_eq [where Atoi = Atoi and newsID = newsID, OF assms(1,2,3)] Let_def)
qed

theorem newsDetailHandler_degrades_witness:
  "newsDetailHandler (\<lambda>str. if str = ''5'' then Some 5 else None) (\<lambda>n. if n = 5 then ''5'' else ''0'') 1000
     (\<lambda>w q. (None, w))
     \<lparr>Method = ''GET'', URL_Path = ''/news/5'', URL_Query = (\<lambda>key. []),
      Header_X_Request_ID = ''req-9'', Context_request_id = Some ''req-9'', Body = ()\<rparr>
     \<lparr>world = initial_store, calls = []\<rparr>
   = (\<lparr>StatusCode = 200,
       Content = JSONNews \<lparr>news_ID = 5, news_Title = ''News 5'', news_Content = ''Content of news 5'',
                           news_PubTime = 1000, news_Comments = Some []\<rparr>\<rparr>,
      \<lparr>world = initial_store,
       calls = [\<lparr>c_Method = ''GET'', c_URL = ''http://localhost:8081/comments?news_id=5'',
                 c_X_Request_ID = ''req-9'', c_Content_Type = [], c_Body = NoPayload\<rparr>]\<rparr>) \<and>
   fst (newsDetailHandler (\<lambda>str. if str = ''5'' then Some 5 else None) (\<lambda>n. if n = 5 then ''5'' else ''0'') 1000
     (\<lambda>w q. (Some \<lparr>StatusCode = 200, Content = PlainText ''not a list''\<rparr>, w))
     \<lparr>Method = ''GET'', URL_Path = ''/news/5'', URL_Query = (\<lambda>key. []),
      Header_X_Request_ID = ''req-9'', Context_request_id = Some ''req-9'', Body = ()\<rparr>
     \<lparr>world = initial_store, calls = []\<rparr>)
   = \<lparr>StatusCode = 200,
       Content = JSONNews \<lparr>news_ID = 5, news_Title = ''News 5'', news_Content = ''Content of news 5'',
                           news_PubTime = 1000, news_Comments = Some []\<rparr>\<rparr>"
proof -
  let ?Atoi = "\<lambda>str. if str = ''5'' then Some (5::int) else None"
  let ?Sprint = "\<lambda>n::int. if n = 5 then ''5'' else ''0''"
  let ?r = "\<lparr>Method = ''GET'', URL_Path = ''/news/5'', URL_Query = (\<lambda>key. []),
      Header_X_Request_ID = ''req-9'', Context_request_id = Some ''req-9'', Body = ()\<rparr>"
  let ?e = "\<lparr>world = initial_store, calls = []\<rparr>"
  let ?down = "\<lambda>(w::store) (q::client_request). (None :: response option, w)"
  let ?garbled = "\<lambda>(w::store) (q::client_request). (Some \<lparr>StatusCode = 200, Content = PlainText ''not a list''\<rparr>, w)"
  have id: "getRequestID ?r = ''req-9''"
    by (simp add: getRequestID_def)
  have m: "Method ?r = ''GET''" by simp
  have t: "TrimPrefix (URL_Path ?r) ''/news/'' = ''5''"
    by (simp add: TrimPrefix_def)
  then have t0: "TrimPrefix (URL_Path ?r) ''/news/'' \<noteq> []" by simp
  have a: "?Atoi (TrimPrefix (URL_Path ?r) ''/news/'') = Some 5"
    by (simp add: TrimPrefix_def)
  have f1: "\<forall>resp. fst (?down (world ?e) (comments_request ?Sprint 5 (getRequestID ?r))) = Some resp
             \<longrightarrow> StatusCode resp \<noteq> 200 \<or> decode_Comments (Content resp) = None"
    by simp
  have f2: "\<forall>resp. fst (?garbled (world ?e) (comments_request ?Sprint 5 (getRequestID ?r))) = Some resp
             \<longrightarrow> StatusCode resp \<noteq> 200 \<or> decode_Comments (Content resp) = None"
    by auto
  from newsDetailHandler_degrades
         [where Atoi = ?Atoi and Sprint_d = ?Sprint and now = 1000 and net = ?down and r = ?r and e = ?e
            and newsID = 5, OF m t0 a f1]
       newsDetailHandler_degrades
         [where Atoi = ?Atoi and Sprint_d = ?Sprint and now = 1000 and net = ?garbled and r = ?r and e = ?e
            and newsID = 5, OF m t0 a f2]
  show ?thesis by (simp add: id comments_request_def)
qed

lemma serve_comment_eq:
  "serve_comment uuid net r e =
     commentHandler net
       (r\<lparr>Context_request_id := Some (if Header_X_Request_ID r = [] then uuid else Header_X_Request_ID r)\<rparr>) e"
  by (simp add: serve_comment_def loggingMiddleware_def Let_def)

lemma serve_news_detail_eq:
  "serve_news_detail uuid Atoi Sprint_d now net r e =
     newsDetailHandler Atoi Sprint_d now net
       (r\<lparr>Context_request_id := Some (if Header_X_Request_ID r = [] then uuid else Header_X_Request_ID r)\<rparr>) e"
  by (simp add: serve_news_detail_def loggingMiddleware_def Let_def)

lemma commentHandler_request_id:
  assumes indep: "\<forall>w q x. net w (q\<lparr>c_X_Request_ID := x\<rparr>) = net w q"
      and same: "Method r1 = Method r2" "Body r1 = Body r2"
  shows "fst (commentHandler net r1 e) = fst (commentHandler net r2 e) \<and>
         world (snd (commentHandler net r1 e)) = world (snd (commentHandler net r2 e)) \<and>
         map without_request_id (calls (snd (commentHandler net r1 e)))
           = map without_request_id (calls (snd (commentHandler net r2 e))) \<and>
         (\<forall>q\<in>set (drop (length (calls e)) (calls (snd (commentHandler net r1 e)))).
            c_X_Request_ID q = getRequestID r1)"
proof (cases "Method r1 = ''POST''")
  case False
  with same show ?thesis by (simp add: commentHandler_def)
next
  case True
  show ?thesis
  proof (cases "Body r1")
    case None
    with True same show ?thesis by (simp add: commentHandler_def)
  next
    case (Some c)
    have cq: "net w (censor_request t a) = net w (censor_request t [])" for w t a
      using indep [rule_format, where w = w and q = "censor_request t []" and x = a] by (simp add: censor_request_def)
    have sq: "net w (save_request c a) = net w (save_request c [])" for w a
      using indep [rule_format, where w = w and q = "save_request c []" and x = a] by (simp add: save_request_def)
    have w: "without_request_id (censor_request t a) = censor_request t []"
            "without_request_id (save_request c a) = save_request c []" for t a
      by (simp_all add: without_request_id_def censor_request_def save_request_def)
    have i: "c_X_Request_ID (censor_request t a) = a" "c_X_Request_ID (save_request c a) = a" for t a
      by (simp_all add: censor_request_def save_request_def)
    from True Some same have p: "Method r2 = ''POST''" "Body r2 = Some c" by simp_all
    show ?thesis
      unfolding commentHandler_eq [OF True Some] commentHandler_eq [OF p]
      by (simp add: Let_def cq [of _ _ "getRequestID r1"] cq [of _ _ "getRequestID r2"]
            sq [of _ "getRequestID r1"] sq [of _ "getRequestID r2"] w i)
  qed
qed

lemma newsDetailHandler_request_id:
  assumes indep: "\<forall>w q x. net w (q\<lparr>c_X_Request_ID := x\<rparr>) = net w q"
      and same: "Method r1 = Method r2" "URL_Path r1 = URL_Path r2"
  shows "fst (newsDetailHandler Atoi Sprint_d now net r1 e) = fst (newsDetailHandler Atoi Sprint_d now net r2 e) \<and>
         world (snd (newsDetailHandler Atoi Sprint_d now net r1 e))
           = world (snd (newsDetailHandler Atoi Sprint_d now net r2 e)) \<and>
         map without_request_id (calls (snd (newsDetailHandler Atoi Sprint_d now net r1 e)))
           = map without_request_id (calls (snd (newsDetailHandler Atoi Sprint_d now net r2 e))) \<and>
         (\<forall>q\<in>set (drop (length (calls e)) (calls (snd (newsDetailHandler Atoi Sprint_d now net r1 e)))).
            c_X_Request_ID q = getRequestID r1)"
proof (cases "Method r1 = ''GET'' \<and> TrimPrefix (URL_Path r1) ''/news/'' \<noteq> []
              \<and> Atoi (TrimPrefix (URL_Path r1) ''/news/'') \<noteq> None")
  case False
  with same show ?thesis by (auto simp add: newsDetailHandler_def Let_def)
next
  case True
  then obtain newsID where n: "Atoi (TrimPrefix (URL_Path r1) ''/news/'') = Some newsID" by blast
  from True have g: "Method r1 = ''GET''" and t: "TrimPrefix (URL_Path r1) ''/news/'' \<noteq> []" by simp_all
  from same g t n have g2: "Method r2 = ''GET''" and t2: "TrimPrefix (URL_Path r2) ''/news/'' \<noteq> []"
    and n2: "Atoi (TrimPrefix (URL_Path r2) ''/news/'') = Some newsID" by simp_all
  have lq: "net w (comments_request Sprint_d newsID a) = net w (comments_request Sprint_d newsID [])" for w a
    using indep [rule_format, where w = w and q = "comments_request Sprint_d newsID []" and x = a]
    by (simp add: comments_request_def)
  have w: "without_request_id (comments_request Sprint_d newsID a) = comments_request Sprint_d newsID []" for a
    by (simp add: without_request_id_def comments_request_def)
  have i: "c_X_Request_ID (comments_request Sprint_d newsID a) = a" for a
    by (simp add: comments_request_def)
  show ?thesis
    unfolding newsDetailHandler_eq [where Atoi = Atoi and newsID = newsID, OF g t n]
              newsDetailHandler_eq [where Atoi = Atoi and newsID = newsID, OF g2 t2 n2]
    by (simp add: Let_def lq [of _ "getRequestID r1"] lq [of _ "getRequestID r2"] w i)
qed

text \<open>
  Claim C8. Let the services answer, and change their state, independently of the
  \<open>X-Request-ID\<close> header of a request. Take two runs of the comment route (and of the news
  detail route) on requests that differ in the \<open>X-Request-ID\<close> header only, with
  whatever UUIDs the middleware generates: the responses are equal, the final states of
  the world are equal, and the requests sent are equal up to their \<open>X-Request-ID\<close> header.
  Every request sent in a run carries the identifier of that run: the header of the
  incoming request, or the generated UUID when the header is empty.
\<close>

theorem request_id_no_control_flow:
  assumes "\<forall>w q x. net w (q\<lparr>c_X_Request_ID := x\<rparr>) = net w q"
  shows "fst (serve_comment u1 net (r\<lparr>Header_X_Request_ID := h1\<rparr>) e)
           = fst (serve_comment u2 net (r\<lparr>Header_X_Request_ID := h2\<rparr>) e) \<and>
         world (snd (serve_comment u1 net (r\<lparr>Header_X_Request_ID := h1\<rparr>) e))
           = world (snd (serve_comment u2 net (r\<lparr>Header_X_Request_ID := h2\<rparr>) e)) \<and>
         map without_request_id (calls (snd (serve_comment u1 net (r\<lparr>Header_X_Request_ID := h1\<rparr>) e)))
           = map without_request_id (calls (snd (serve_comment u2 net (r\<lparr>Header_X_Request_ID := h2\<rparr>) e))) \<and>
         (\<forall>q\<in>set (drop (length (calls e))
                    (calls (snd (serve_comment u1 net (r\<lparr>Header_X_Request_ID := h1\<rparr>) e)))).
            c_X_Request_ID q = (if h1 = [] then u1 else h1)) \<and>
         fst (serve_news_detail u1 Atoi Sprint_d now net (g\<lparr>Header_X_Request_ID := h1\<rparr>) e)
           = fst (serve_news_detail u2 Atoi Sprint_d now net (g\<lparr>Header_X_Request_ID := h2\<rparr>) e) \<and>
         world (snd (serve_news_detail u1 Atoi Sprint_d now net (g\<lparr>Header_X_Request_ID := h1\<rparr>) e))
           = world (snd (serve_news_detail u2 Atoi Sprint_d now net (g\<lparr>Header_X_Request_ID := h2\<rparr>) e)) \<and>
         map without_request_id
             (calls (snd (serve_news_detail u1 Atoi Sprint_d now net (g\<lparr>Header_X_Request_ID := h1\<rparr>) e)))
           = map without_request_id
               (calls (snd (serve_news_detail u2 Atoi Sprint_d now net (g\<lparr>Header_X_Request_ID := h2\<rparr>) e))) \<and>
         (\<forall>q\<in>set (drop (length (calls e))
                    (calls (snd (serve_news_detail u1 Atoi Sprint_d now net (g\<lparr>Header_X_Request_ID := h1\<rparr>) e)))).
            c_X_Request_ID q = (if h1 = [] then u1 else h1))"
proof -
  let ?r1 = "r\<lparr>Header_X_Request_ID := h1, Context_request_id := Some (if h1 = [] then u1 else h1)\<rparr>"
  let ?r2 = "r\<lparr>Header_X_Request_ID := h2, Context_request_id := Some (if h2 = [] then u2 else h2)\<rparr>"
  let ?g1 = "g\<lparr>Header_X_Request_ID := h1, Context_request_id := Some (if h1 = [] then u1 else h1)\<rparr>"
  let ?g2 = "g\<lparr>Header_X_Request_ID := h2, Context_request_id := Some (if h2 = [] then u2 else h2)\<rparr>"
  have c: "serve_comment u1 net (r\<lparr>Header_X_Request_ID := h1\<rparr>) e = commentHandler net ?r1 e"
          "serve_comment u2 net (r\<lparr>Header_X_Request_ID := h2\<rparr>) e = commentHandler net ?r2 e"
    by (simp_all add: serve_comment_eq)
  have n: "serve_news_detail u1 Atoi Sprint_d now net (g\<lparr>Header_X_Request_ID := h1\<rparr>) e
             = newsDetailHandler Atoi Sprint_d now net ?g1 e"
          "serve_news_detail u2 Atoi Sprint_d now net (g\<lparr>Header_X_Request_ID := h2\<rparr>) e
             = newsDetailHandler Atoi Sprint_d now net ?g2 e"
    by (simp_all add: serve_news_detail_eq)
  have i: "getRequestID ?r1 = (if h1 = [] then u1 else h1)" "getRequestID ?g1 = (if h1 = [] then u1 else h1)"
    by (simp_all add: getRequestID_def)
  have a: "Method ?r1 = Method ?r2" "Body ?r1 = Body ?r2" "Method ?g1 = Method ?g2" "URL_Path ?g1 = URL_Path ?g2"
    by simp_all
  from commentHandler_request_id [OF assms a(1,2), of e]
       newsDetailHandler_request_id [OF assms a(3,4), of Atoi Sprint_d now e]
  show ?thesis unfolding c n i by blast
qed

theorem request_id_no_control_flow_witness:
  "fst (serve_comment ''uuid-a'' (loopback (\<lambda>str. None) ''uuid-1'')
         \<lparr>Method = ''POST'', URL_Path = ''/comment'', URL_Query = (\<lambda>key. []),
          Header_X_Request_ID = ''client-id'', Context_request_id = None,
          Body = Some \<lparr>ID = 0, NewsID = 3, ParentID = None, Text = bytes_of ''hello''\<rparr>\<rparr>
         \<lparr>world = initial_store, calls = []\<rparr>)
   = fst (serve_comment ''uuid-b'' (loopback (\<lambda>str. None) ''uuid-1'')
         \<lparr>Method = ''POST'', URL_Path = ''/comment'', URL_Query = (\<lambda>key. []),
          Header_X_Request_ID = [], Context_request_id = None,
          Body = Some \<lparr>ID = 0, NewsID = 3, ParentID = None, Text = bytes_of ''hello''\<rparr>\<rparr>
         \<lparr>world = initial_store, calls = []\<rparr>) \<and>
   map c_X_Request_ID (calls (snd (serve_comment ''uuid-a'' (loopback (\<lambda>str. None) ''uuid-1'')
         \<lparr>Method = ''POST'', URL_Path = ''/comment'', URL_Query = (\<lambda>key. []),
          Header_X_Request_ID = ''client-id'', Context_request_id = None,
          Body = Some \<lparr>ID = 0, NewsID = 3, ParentID = None, Text = bytes_of ''hello''\<rparr>\<rparr>
         \<lparr>world = initial_store, calls = []\<rparr>)))
   = [''client-id'', ''client-id''] \<and>
   map c_X_Request_ID (calls (snd (serve_comment ''uuid-b'' (loopback (\<lambda>str. None) ''uuid-1'')
         \<lparr>Method = ''POST'', URL_Path = ''/comment'', URL_Query = (\<lambda>key. []),
          Header_X_Request_ID = [], Context_request_id = None,
          Body = Some \<lparr>ID = 0, NewsID = 3, ParentID = None, Text = bytes_of ''hello''\<rparr>\<rparr>
         \<lparr>world = initial_store, calls = []\<rparr>)))
   = [''uuid-b'', ''uuid-b'']"
proof -
  let ?net = "loopback (\<lambda>str. None) ''uuid-1''"
  let ?c = "\<lparr>ID = 0, NewsID = 3, ParentID = None, Text = bytes_of ''hello''\<rparr>"
  let ?r = "\<lparr>Method = ''POST'', URL_Path = ''/comment'', URL_Query = (\<lambda>key. []),
          Header_X_Request_ID = [], Context_request_id = None, Body = Some ?c\<rparr>"
  let ?e = "\<lparr>world = initial_store, calls = []\<rparr>"
  have indep: "\<forall>w q x. ?net w (q\<lparr>c_X_Request_ID := x\<rparr>) = ?net w q"
    by (simp add: loopback_ignores_request_id)
  have clean: "containsProhibitedWords (bytes_of ''hello'') = Some False"
    by code_simp
  have run: "calls (snd (serve_comment u ?net (?r\<lparr>Header_X_Request_ID := h\<rparr>) ?e))
               = [censor_request (bytes_of ''hello'') (if h = [] then u else h),
                  save_request ?c (if h = [] then u else h)]" for u h
    by (simp add: serve_comment_eq commentHandler_eq Let_def getRequestID_def
          loopback_check checkHandler_post clean check_passed_def loopback_save save_succeeded_def)
  have ids: "c_X_Request_ID (censor_request t a) = a" "c_X_Request_ID (save_request c a) = a" for t c a
    by (simp_all add: censor_request_def save_request_def)
  from request_id_no_control_flow
         [where net = ?net and r = ?r and e = ?e and ?u1.0 = "''uuid-a''" and ?u2.0 = "''uuid-b''"
            and ?h1.0 = "''client-id''" and ?h2.0 = "[]", OF indep, THEN conjunct1]
       run [of "''uuid-a''" "''client-id''"] run [of "''uuid-b''" "[]"]
  show ?thesis by (simp add: ids)
qed

end
